(* ===== verification/Prelude.thy ===== *)
theory Prelude
  imports Main "HOL-Library.Word" "HOL-Library.Signed_Division"
begin

text \<open>
  The vocabulary every component shares: machine integers, the status and result types of
  \<^verbatim>\<open>include/public/nimblefix/base/status.h\<close> and \<^verbatim>\<open>base/result.h\<close>, the lemma collections of
  the development, and the generic facts on words, lists and sorted sequences that carry
  the component proofs.
\<close>

section \<open>Machine integers\<close>

type_synonym u8 = "8 word"
type_synonym u16 = "16 word"
type_synonym u32 = "32 word"
type_synonym u64 = "64 word"

type_synonym bytes = "u8 list"

text \<open>\<^verbatim>\<open>std::numeric_limits<std::uint32_t>::max()\<close> and its 64-bit counterpart.\<close>

abbreviation u32_max :: u32 where
  "u32_max \<equiv> - 1"

abbreviation u64_max :: u64 where
  "u64_max \<equiv> - 1"

section \<open>Status and result\<close>

text \<open>
  A \<^verbatim>\<open>base::Status\<close> is only ever made by its named factories; each factory is a constructor
  here and carries the message the code passes. A \<^verbatim>\<open>base::Result<T>\<close> holds either a status
  that is not \<open>Ok\<close> or a value: \<open>Inl\<close> is the error, \<open>Inr\<close> the value.
\<close>

datatype Status =
    Ok
  | InvalidArgument string
  | IoError string
  | Busy string
  | FormatError string
  | VersionMismatch string
  | NotFound string
  | AlreadyExists string

datatype ErrorCode =
    kOk | kInvalidArgument | kIoError | kBusy | kFormatError | kVersionMismatch | kNotFound | kAlreadyExists

fun status_code :: "Status \<Rightarrow> ErrorCode" where
  "status_code Ok = kOk"
| "status_code (InvalidArgument _) = kInvalidArgument"
| "status_code (IoError _) = kIoError"
| "status_code (Busy _) = kBusy"
| "status_code (FormatError _) = kFormatError"
| "status_code (VersionMismatch _) = kVersionMismatch"
| "status_code (NotFound _) = kNotFound"
| "status_code (AlreadyExists _) = kAlreadyExists"

definition status_ok :: "Status \<Rightarrow> bool" where
  "status_ok s \<longleftrightarrow> status_code s = kOk"

type_synonym 'a Result = "Status + 'a"

fun result_ok :: "'a Result \<Rightarrow> bool" where
  "result_ok (Inl _) = False"
| "result_ok (Inr _) = True"

fun result_status :: "'a Result \<Rightarrow> Status" where
  "result_status (Inl s) = s"
| "result_status (Inr _) = Ok"

section \<open>Lemma collections\<close>

named_theorems op_defs \<open>definitions of the operations of a component\<close>
named_theorems inv_defs \<open>definitions of the invariants of a component\<close>

section \<open>Status\<close>

lemma status_ok_iff [simp]: "status_ok s \<longleftrightarrow> s = Ok"
  by (cases s) (simp_all add: status_ok_def)

lemma result_ok_iff: "result_ok r \<longleftrightarrow> (\<exists>v. r = Inr v)"
  by (cases r) auto

section \<open>Words\<close>

lemma unat_lt_2p32: "unat (w :: u32) < 4294967296"
  using unsigned_less [of w, where ?'a = nat] by simp

lemma unat_le_u32_max: "unat (w :: u32) \<le> 4294967295"
  using unat_lt_2p32 [of w] by linarith

lemma unat_of_nat_u32: "n < 4294967296 \<Longrightarrow> unat (of_nat n :: u32) = n"
  by (simp add: unat_of_nat)

lemma unat_lt_2p64: "unat (w :: u64) < 18446744073709551616"
  using unsigned_less [of w, where ?'a = nat] by simp

lemma unat_u32_max [simp]: "unat u32_max = 4294967295"
  by (simp add: unsigned_minus_1_eq_mask mask_eq_exp_minus_1)

lemma unat_Suc_u32: "w \<noteq> u32_max \<Longrightarrow> unat (w + 1 :: u32) = Suc (unat w)"
  by (metis add.commute add_eq_0_iff unatSuc)

lemma unat_pred: "w \<noteq> 0 \<Longrightarrow> unat (w - 1 :: 'a::len word) = unat w - 1"
  by (rule unat_minus_one)

lemma word_Suc_neq_0: "w \<noteq> - 1 \<Longrightarrow> w + 1 \<noteq> (0 :: 'a::len word)"
  by (metis add_eq_0_iff add.commute)

lemma word_le_pred:
  assumes "(n :: 'a::len word) < q"
  shows "n \<le> q - 1"
proof -
  from assms have "q \<noteq> 0" by auto
  with assms show ?thesis by (simp add: word_le_nat_alt word_less_nat_alt unat_pred)
qed

end
