(* ===== verification/Transport_Profile.thy ===== *)
theory Transport_Profile
  imports Prelude
begin

text \<open>
  \<^verbatim>\<open>session/transport_profile\<close>: the FIX transport versions and the behaviour flags the session
  state machine and the administrative protocol read from them. A profile is resolved from
  the \<^verbatim>\<open>BeginString(8)\<close> on the wire.
\<close>

datatype TransportVersion = kFix40 | kFix41 | kFix42 | kFix43 | kFix44 | kFixT11

record TransportSessionProfile =
  tp_version :: TransportVersion
  tp_begin_string :: string
  tp_requires_default_appl_ver_id :: bool
  tp_supports_reset_on_logon :: bool
  tp_default_heartbeat_interval_seconds :: u32
  tp_supports_next_expected_msg_seq_num :: bool
  tp_supports_msg_seq_num_reset :: bool
  tp_transport_and_app_version_decoupled :: bool

definition Fix40 :: TransportSessionProfile where
  "Fix40 = \<lparr> tp_version = kFix40, tp_begin_string = ''FIX.4.0'',
     tp_requires_default_appl_ver_id = False, tp_supports_reset_on_logon = False,
     tp_default_heartbeat_interval_seconds = 30,
     tp_supports_next_expected_msg_seq_num = False, tp_supports_msg_seq_num_reset = True,
     tp_transport_and_app_version_decoupled = False \<rparr>"

definition Fix41 :: TransportSessionProfile where
  "Fix41 = \<lparr> tp_version = kFix41, tp_begin_string = ''FIX.4.1'',
     tp_requires_default_appl_ver_id = False, tp_supports_reset_on_logon = True,
     tp_default_heartbeat_interval_seconds = 30,
     tp_supports_next_expected_msg_seq_num = False, tp_supports_msg_seq_num_reset = True,
     tp_transport_and_app_version_decoupled = False \<rparr>"

definition Fix42 :: TransportSessionProfile where
  "Fix42 = \<lparr> tp_version = kFix42, tp_begin_string = ''FIX.4.2'',
     tp_requires_default_appl_ver_id = False, tp_supports_reset_on_logon = True,
     tp_default_heartbeat_interval_seconds = 30,
     tp_supports_next_expected_msg_seq_num = False, tp_supports_msg_seq_num_reset = True,
     tp_transport_and_app_version_decoupled = False \<rparr>"

definition Fix43 :: TransportSessionProfile where
  "Fix43 = \<lparr> tp_version = kFix43, tp_begin_string = ''FIX.4.3'',
     tp_requires_default_appl_ver_id = False, tp_supports_reset_on_logon = True,
     tp_default_heartbeat_interval_seconds = 30,
     tp_supports_next_expected_msg_seq_num = False, tp_supports_msg_seq_num_reset = True,
     tp_transport_and_app_version_decoupled = False \<rparr>"

definition Fix44 :: TransportSessionProfile where
  "Fix44 = \<lparr> tp_version = kFix44, tp_begin_string = ''FIX.4.4'',
     tp_requires_default_appl_ver_id = False, tp_supports_reset_on_logon = True,
     tp_default_heartbeat_interval_seconds = 30,
     tp_supports_next_expected_msg_seq_num = True, tp_supports_msg_seq_num_reset = True,
     tp_transport_and_app_version_decoupled = False \<rparr>"

definition FixT11 :: TransportSessionProfile where
  "FixT11 = \<lparr> tp_version = kFixT11, tp_begin_string = ''FIXT.1.1'',
     tp_requires_default_appl_ver_id = True, tp_supports_reset_on_logon = True,
     tp_default_heartbeat_interval_seconds = 30,
     tp_supports_next_expected_msg_seq_num = True, tp_supports_msg_seq_num_reset = True,
     tp_transport_and_app_version_decoupled = True \<rparr>"

definition FromBeginString :: "string \<Rightarrow> TransportSessionProfile" where
  "FromBeginString begin_string =
     (if begin_string = ''FIX.4.0'' then Fix40
      else if begin_string = ''FIX.4.1'' then Fix41
      else if begin_string = ''FIX.4.2'' then Fix42
      else if begin_string = ''FIX.4.3'' then Fix43
      else if begin_string = ''FIX.4.4'' then Fix44
      else if begin_string = ''FIXT.1.1'' then FixT11
      else Fix44\<lparr> tp_begin_string := begin_string \<rparr>)"

lemmas profile_defs = Fix40_def Fix41_def Fix42_def Fix43_def Fix44_def FixT11_def

lemma FromBeginString_begin_string: "tp_begin_string (FromBeginString b) = b"
  by (simp add: FromBeginString_def profile_defs)

lemma FromBeginString_decoupled_iff:
  "tp_requires_default_appl_ver_id (FromBeginString b) \<longleftrightarrow> b = ''FIXT.1.1''"
  "tp_transport_and_app_version_decoupled (FromBeginString b) \<longleftrightarrow> b = ''FIXT.1.1''"
  by (simp_all add: FromBeginString_def profile_defs)

end
