(* ===== verification/Session_Core.thy ===== *)
theory Session_Core
  imports Transport_Profile
begin

text \<open>
  \<^verbatim>\<open>session/session_core\<close>: the per-session state machine. It owns the connection state, the
  next inbound and outbound sequence numbers, the range of inbound messages a detected gap
  still waits for, the warm-up counter and the day-cut schedule. Each method of
  \<^verbatim>\<open>SessionCore\<close> is a function from the object to its status and the updated object.
\<close>

section \<open>State\<close>

datatype SessionState =
    kDisconnected | kConnecting | kConnected | kPendingLogon | kRecovering
  | kActive | kResendProcessing | kAwaitingLogout | kClosed

record ResendRange =
  rr_begin_seq :: u32
  rr_end_seq :: u32

record SessionKey =
  key_begin_string :: string
  key_sender_comp_id :: string
  key_target_comp_id :: string
  key_sender_location_id :: "string option"
  key_target_location_id :: "string option"
  key_session_qualifier :: "string option"

datatype DayCutMode = kNoAutoReset | kFixedLocalTime | kFixedUtcTime | kExternalControl

record DayCutConfig =
  dc_mode :: DayCutMode
  dc_reset_hour :: int
  dc_reset_minute :: int
  dc_utc_offset_seconds :: int

record SessionConfig =
  cfg_session_id :: u64
  cfg_key :: SessionKey
  cfg_profile_id :: u64
  cfg_default_appl_ver_id :: string
  cfg_heartbeat_interval_seconds :: u32
  cfg_is_initiator :: bool

record SessionSnapshot =
  snap_session_id :: u64
  snap_state :: SessionState
  snap_profile_id :: u64
  snap_next_in_seq :: u32
  snap_next_out_seq :: u32
  snap_last_inbound_ns :: u64
  snap_last_outbound_ns :: u64
  snap_has_pending_resend :: bool
  snap_pending_resend :: ResendRange
  snap_is_warmup :: bool

record SessionHandle =
  handle_session_id :: u64
  handle_worker_id :: u32

text \<open>
  Signed 32-bit members that only take part in comparisons and in arithmetic far from the
  32-bit limits (the day-cut settings and \<^verbatim>\<open>last_day_cut_date_\<close>) are integers; the lemma
  \<open>day_cut_date_fits_int32\<close> below shows that the narrowing casts of \<^verbatim>\<open>CheckDayCut\<close>
  never truncate.
\<close>

record SessionCore =
  sc_config :: SessionConfig
  sc_state :: SessionState
  sc_resume_state :: SessionState
  sc_next_in_seq :: u32
  sc_next_out_seq :: u32
  sc_last_inbound_ns :: u64
  sc_last_outbound_ns :: u64
  sc_pending_resend :: "ResendRange option"
  sc_resend_completed :: bool
  sc_warmup_remaining :: u32
  sc_warmup_total :: u32
  sc_day_cut_config :: DayCutConfig
  sc_last_day_cut_date :: int
  sc_transport_profile :: "TransportSessionProfile option"

definition ForInitiator :: "string \<Rightarrow> string \<Rightarrow> string \<Rightarrow> SessionKey" where
  "ForInitiator local_sender_comp_id remote_target_comp_id begin_string =
     \<lparr> key_begin_string = begin_string, key_sender_comp_id = local_sender_comp_id,
       key_target_comp_id = remote_target_comp_id, key_sender_location_id = None,
       key_target_location_id = None, key_session_qualifier = None \<rparr>"

definition ForAcceptor :: "string \<Rightarrow> string \<Rightarrow> string \<Rightarrow> SessionKey" where
  "ForAcceptor local_sender_comp_id remote_target_comp_id begin_string =
     \<lparr> key_begin_string = begin_string, key_sender_comp_id = local_sender_comp_id,
       key_target_comp_id = remote_target_comp_id, key_sender_location_id = None,
       key_target_location_id = None, key_session_qualifier = None \<rparr>"

definition default_day_cut_config :: DayCutConfig where
  "default_day_cut_config =
     \<lparr> dc_mode = kNoAutoReset, dc_reset_hour = 0, dc_reset_minute = 0, dc_utc_offset_seconds = 0 \<rparr>"

definition SessionCore_new :: "SessionConfig \<Rightarrow> SessionCore" where
  "SessionCore_new config =
     \<lparr> sc_config = config, sc_state = kDisconnected, sc_resume_state = kDisconnected,
       sc_next_in_seq = 1, sc_next_out_seq = 1, sc_last_inbound_ns = 0, sc_last_outbound_ns = 0,
       sc_pending_resend = None, sc_resend_completed = False, sc_warmup_remaining = 0,
       sc_warmup_total = 0, sc_day_cut_config = default_day_cut_config,
       sc_last_day_cut_date = -1, sc_transport_profile = None \<rparr>"

section \<open>Operations\<close>

definition BeginConnect :: "SessionCore \<Rightarrow> Status \<times> SessionCore" where
  "BeginConnect s =
     (if sc_state s \<noteq> kDisconnected
      then (InvalidArgument ''connect can only begin from the disconnected state'', s)
      else (Ok, s\<lparr> sc_state := kConnecting \<rparr>))"

definition OnTransportConnected :: "SessionCore \<Rightarrow> Status \<times> SessionCore" where
  "OnTransportConnected s =
     (if sc_state s \<noteq> kDisconnected \<and> sc_state s \<noteq> kConnecting
      then (InvalidArgument ''transport can only connect from the disconnected or connecting state'', s)
      else (Ok, s\<lparr> sc_state := kConnected \<rparr>))"

definition Close :: "SessionCore \<Rightarrow> Status \<times> SessionCore" where
  "Close s = (Ok, s\<lparr> sc_pending_resend := None, sc_state := kClosed \<rparr>)"

definition BeginRecovery :: "SessionCore \<Rightarrow> Status \<times> SessionCore" where
  "BeginRecovery s =
     (if sc_state s = kRecovering
      then (InvalidArgument ''session is already recovering'', s)
      else (Ok, s\<lparr> sc_resume_state := sc_state s, sc_state := kRecovering \<rparr>))"

definition FinishRecovery :: "SessionCore \<Rightarrow> Status \<times> SessionCore" where
  "FinishRecovery s =
     (if sc_state s \<noteq> kRecovering
      then (InvalidArgument ''session is not recovering'', s)
      else (Ok, s\<lparr> sc_state := sc_resume_state s \<rparr>))"

definition BeginLogon :: "SessionCore \<Rightarrow> Status \<times> SessionCore" where
  "BeginLogon s =
     (if sc_state s \<noteq> kConnected
      then (InvalidArgument ''logon can only begin from the connected state'', s)
      else (Ok, s\<lparr> sc_state := kPendingLogon \<rparr>))"

definition RestoreSequenceState :: "u32 \<Rightarrow> u32 \<Rightarrow> SessionCore \<Rightarrow> Status \<times> SessionCore" where
  "RestoreSequenceState next_in_seq next_out_seq s =
     (if sc_state s \<noteq> kDisconnected \<and> sc_state s \<noteq> kConnected \<and> sc_state s \<noteq> kPendingLogon \<and>
         sc_state s \<noteq> kActive \<and> sc_state s \<noteq> kRecovering
      then (InvalidArgument ''sequence state can only be restored before session activation'', s)
      else if next_in_seq = 0 \<or> next_out_seq = 0
      then (InvalidArgument ''sequence numbers must be positive'', s)
      else (Ok, s\<lparr> sc_next_in_seq := next_in_seq, sc_next_out_seq := next_out_seq,
                   sc_pending_resend := None \<rparr>))"

text \<open>
  The block that \<^verbatim>\<open>AdvanceInboundExpectedSeq\<close> and \<^verbatim>\<open>ObserveInboundSeq\<close> both end with: the
  session leaves resend processing once the expected number has passed the pending range.
\<close>

definition leave_resend_if_complete :: "SessionCore \<Rightarrow> SessionCore" where
  "leave_resend_if_complete s =
     (case sc_pending_resend s of
        Some r \<Rightarrow>
          if sc_state s = kResendProcessing \<and> sc_next_in_seq s > rr_end_seq r
          then s\<lparr> sc_pending_resend := None, sc_state := sc_resume_state s, sc_resend_completed := True \<rparr>
          else s
      | None \<Rightarrow> s)"

definition AdvanceInboundExpectedSeq :: "u32 \<Rightarrow> SessionCore \<Rightarrow> Status \<times> SessionCore" where
  "AdvanceInboundExpectedSeq next_in_seq s =
     (if next_in_seq = 0 then (InvalidArgument ''sequence numbers must be positive'', s)
      else if next_in_seq < sc_next_in_seq s
      then (InvalidArgument ''cannot move inbound sequence backwards'', s)
      else (Ok, leave_resend_if_complete (s\<lparr> sc_next_in_seq := next_in_seq \<rparr>)))"

definition OnLogonAccepted :: "SessionCore \<Rightarrow> Status \<times> SessionCore" where
  "OnLogonAccepted s =
     (if sc_state s \<noteq> kConnected \<and> sc_state s \<noteq> kPendingLogon
      then (InvalidArgument ''logon can only be accepted from the connected or pending-logon state'', s)
      else (Ok, s\<lparr> sc_state := kActive, sc_warmup_remaining := sc_warmup_total s \<rparr>))"

definition BeginLogout :: "SessionCore \<Rightarrow> Status \<times> SessionCore" where
  "BeginLogout s =
     (if sc_state s \<noteq> kActive \<and> sc_state s \<noteq> kResendProcessing
      then (InvalidArgument ''logout can only begin from the active or resend-processing state'', s)
      else (Ok, s\<lparr> sc_pending_resend := None, sc_state := kAwaitingLogout \<rparr>))"

definition OnTransportClosed :: "SessionCore \<Rightarrow> Status \<times> SessionCore" where
  "OnTransportClosed s =
     (Ok, if sc_state s \<noteq> kClosed then s\<lparr> sc_state := kDisconnected \<rparr> else s)"

text \<open>The states in which sequence numbers are allocated and observed.\<close>

definition sequencing_state :: "SessionState \<Rightarrow> bool" where
  "sequencing_state st \<longleftrightarrow>
     st = kConnected \<or> st = kPendingLogon \<or> st = kActive \<or> st = kAwaitingLogout \<or> st = kResendProcessing"

definition AllocateOutboundSeq :: "SessionCore \<Rightarrow> u32 Result \<times> SessionCore" where
  "AllocateOutboundSeq s =
     (if \<not> sequencing_state (sc_state s)
      then (Inl (InvalidArgument ''outbound sequence numbers can only be allocated for an active session''), s)
      else if sc_next_out_seq s = u32_max
      then (Inl (InvalidArgument ''outbound sequence number overflow; session reset required''), s)
      else (Inr (sc_next_out_seq s), s\<lparr> sc_next_out_seq := sc_next_out_seq s + 1 \<rparr>))"

definition ObserveInboundSeq :: "u32 \<Rightarrow> SessionCore \<Rightarrow> Status \<times> SessionCore" where
  "ObserveInboundSeq seq_num s =
     (if \<not> sequencing_state (sc_state s)
      then (InvalidArgument ''inbound sequence numbers can only be observed for an active session'', s)
      else if seq_num < sc_next_in_seq s
      then (InvalidArgument ''received a duplicate or stale inbound sequence number'', s)
      else if seq_num > sc_next_in_seq s
      then (InvalidArgument ''inbound sequence gap detected'',
            (case (sc_state s = kResendProcessing, sc_pending_resend s) of
               (True, Some r) \<Rightarrow>
                 (let new_end = seq_num - 1 in
                  if new_end > rr_end_seq r
                  then s\<lparr> sc_pending_resend := Some (r\<lparr> rr_end_seq := new_end \<rparr>) \<rparr>
                  else s)
             | _ \<Rightarrow>
                 s\<lparr> sc_pending_resend :=
                      Some \<lparr> rr_begin_seq = sc_next_in_seq s, rr_end_seq = seq_num - 1 \<rparr>,
                    sc_resume_state := sc_state s,
                    sc_state := kResendProcessing \<rparr>))
      else (Ok, leave_resend_if_complete (s\<lparr> sc_next_in_seq := sc_next_in_seq s + 1 \<rparr>)))"

definition BeginResend :: "u32 \<Rightarrow> u32 \<Rightarrow> SessionCore \<Rightarrow> Status \<times> SessionCore" where
  "BeginResend begin_seq end_seq s =
     (if sc_state s \<noteq> kActive \<and> sc_state s \<noteq> kAwaitingLogout
      then (InvalidArgument ''resend can only begin from an active session'', s)
      else if begin_seq = 0 \<or> end_seq = 0 \<or> begin_seq > end_seq
      then (InvalidArgument ''invalid resend range'', s)
      else (Ok, s\<lparr> sc_pending_resend := Some \<lparr> rr_begin_seq = begin_seq, rr_end_seq = end_seq \<rparr>,
                   sc_resume_state := sc_state s, sc_state := kResendProcessing \<rparr>))"

definition CompleteResend :: "SessionCore \<Rightarrow> Status \<times> SessionCore" where
  "CompleteResend s =
     (if sc_state s \<noteq> kResendProcessing
      then (InvalidArgument ''session is not processing a resend'', s)
      else (Ok, s\<lparr> sc_pending_resend := None, sc_state := sc_resume_state s,
                   sc_resend_completed := True \<rparr>))"

definition RecordInboundActivity :: "u64 \<Rightarrow> SessionCore \<Rightarrow> Status \<times> SessionCore" where
  "RecordInboundActivity timestamp_ns s = (Ok, s\<lparr> sc_last_inbound_ns := timestamp_ns \<rparr>)"

definition RecordOutboundActivity :: "u64 \<Rightarrow> SessionCore \<Rightarrow> Status \<times> SessionCore" where
  "RecordOutboundActivity timestamp_ns s = (Ok, s\<lparr> sc_last_outbound_ns := timestamp_ns \<rparr>)"

definition ConsumeResendCompleted :: "SessionCore \<Rightarrow> bool \<times> SessionCore" where
  "ConsumeResendCompleted s =
     (if sc_resend_completed s then (True, s\<lparr> sc_resend_completed := False \<rparr>) else (False, s))"

definition SetWarmupCount :: "u32 \<Rightarrow> SessionCore \<Rightarrow> SessionCore" where
  "SetWarmupCount count s = s\<lparr> sc_warmup_total := count, sc_warmup_remaining := count \<rparr>"

definition ConsumeWarmupMessage :: "SessionCore \<Rightarrow> bool \<times> SessionCore" where
  "ConsumeWarmupMessage s =
     (if sc_warmup_remaining s > 0
      then (True, s\<lparr> sc_warmup_remaining := sc_warmup_remaining s - 1 \<rparr>)
      else (False, s))"

definition is_warmup :: "SessionCore \<Rightarrow> bool" where
  "is_warmup s \<longleftrightarrow> sc_warmup_remaining s > 0"

definition Snapshot :: "SessionCore \<Rightarrow> SessionSnapshot" where
  "Snapshot s =
     \<lparr> snap_session_id = cfg_session_id (sc_config s),
       snap_state = sc_state s,
       snap_profile_id = cfg_profile_id (sc_config s),
       snap_next_in_seq = sc_next_in_seq s,
       snap_next_out_seq = sc_next_out_seq s,
       snap_last_inbound_ns = sc_last_inbound_ns s,
       snap_last_outbound_ns = sc_last_outbound_ns s,
       snap_has_pending_resend = (sc_pending_resend s \<noteq> None),
       snap_pending_resend =
         (case sc_pending_resend s of Some r \<Rightarrow> r | None \<Rightarrow> \<lparr> rr_begin_seq = 0, rr_end_seq = 0 \<rparr>),
       snap_is_warmup = is_warmup s \<rparr>"

definition session_handle :: "u32 \<Rightarrow> SessionCore \<Rightarrow> SessionHandle" where
  "session_handle worker_id s =
     \<lparr> handle_session_id = cfg_session_id (sc_config s), handle_worker_id = worker_id \<rparr>"

subsection \<open>Day cut\<close>

definition TriggerDayCut :: "SessionCore \<Rightarrow> Status \<times> SessionCore" where
  "TriggerDayCut s =
     (if sc_state s \<noteq> kDisconnected \<and> sc_state s \<noteq> kActive
      then (InvalidArgument ''day-cut can only be triggered when session is disconnected or active'', s)
      else (Ok, s\<lparr> sc_next_in_seq := 1, sc_next_out_seq := 1, sc_pending_resend := None \<rparr>))"

text \<open>
  The session day a wall-clock time belongs to. C++ division and remainder truncate towards
  zero: \<open>sdiv\<close> and \<open>smod\<close>.
\<close>

definition effective_day_cut_date :: "DayCutConfig \<Rightarrow> u64 \<Rightarrow> int" where
  "effective_day_cut_date c now_ns =
     (let epoch_seconds = int (unat (now_ns div 1000000000));
          adjusted_seconds =
            (if dc_mode c = kFixedLocalTime then epoch_seconds + dc_utc_offset_seconds c else epoch_seconds);
          day_number = adjusted_seconds sdiv 86400;
          time_of_day = adjusted_seconds smod 86400;
          current_hour = time_of_day sdiv 3600;
          current_minute = (time_of_day smod 3600) sdiv 60;
          past_reset =
            (current_hour > dc_reset_hour c \<or>
             current_hour = dc_reset_hour c \<and> current_minute \<ge> dc_reset_minute c)
      in if past_reset then day_number else day_number - 1)"

definition CheckDayCut :: "u64 \<Rightarrow> SessionCore \<Rightarrow> SessionCore" where
  "CheckDayCut now_ns s =
     (let c = sc_day_cut_config s in
      if dc_mode c \<noteq> kFixedLocalTime \<and> dc_mode c \<noteq> kFixedUtcTime then s
      else
        let effective_date = effective_day_cut_date c now_ns in
        if sc_last_day_cut_date s < 0 then s\<lparr> sc_last_day_cut_date := effective_date \<rparr>
        else if effective_date \<le> sc_last_day_cut_date s then s
        else snd (TriggerDayCut (s\<lparr> sc_last_day_cut_date := effective_date \<rparr>)))"

definition SetDayCutConfig :: "DayCutConfig \<Rightarrow> SessionCore \<Rightarrow> SessionCore" where
  "SetDayCutConfig config s = s\<lparr> sc_day_cut_config := config \<rparr>"

definition set_transport_profile :: "TransportSessionProfile option \<Rightarrow> SessionCore \<Rightarrow> SessionCore" where
  "set_transport_profile profile s = s\<lparr> sc_transport_profile := profile \<rparr>"

section \<open>Effects\<close>

text \<open>What each operation does to the object, whatever status it returns.\<close>

named_theorems core_effects \<open>the object after each operation\<close>

lemma core_effect_connection [core_effects]:
  "snd (BeginConnect s) = (if sc_state s = kDisconnected then s\<lparr> sc_state := kConnecting \<rparr> else s)"
  "snd (OnTransportConnected s) =
     (if sc_state s = kDisconnected \<or> sc_state s = kConnecting then s\<lparr> sc_state := kConnected \<rparr> else s)"
  "snd (Close s) = s\<lparr> sc_pending_resend := None, sc_state := kClosed \<rparr>"
  "snd (OnTransportClosed s) = (if sc_state s = kClosed then s else s\<lparr> sc_state := kDisconnected \<rparr>)"
  by (simp_all add: BeginConnect_def OnTransportConnected_def Close_def OnTransportClosed_def)

lemma core_effect_recovery [core_effects]:
  "snd (BeginRecovery s) =
     (if sc_state s = kRecovering then s else s\<lparr> sc_resume_state := sc_state s, sc_state := kRecovering \<rparr>)"
  "snd (FinishRecovery s) = (if sc_state s = kRecovering then s\<lparr> sc_state := sc_resume_state s \<rparr> else s)"
  "snd (RestoreSequenceState i n s) =
     (if sc_state s \<in> {kDisconnected, kConnected, kPendingLogon, kActive, kRecovering} \<and> i \<noteq> 0 \<and> n \<noteq> 0
      then s\<lparr> sc_next_in_seq := i, sc_next_out_seq := n, sc_pending_resend := None \<rparr> else s)"
  by (auto simp: BeginRecovery_def FinishRecovery_def RestoreSequenceState_def)

lemma core_effect_logon [core_effects]:
  "snd (BeginLogon s) = (if sc_state s = kConnected then s\<lparr> sc_state := kPendingLogon \<rparr> else s)"
  "snd (OnLogonAccepted s) =
     (if sc_state s = kConnected \<or> sc_state s = kPendingLogon
      then s\<lparr> sc_state := kActive, sc_warmup_remaining := sc_warmup_total s \<rparr> else s)"
  "snd (BeginLogout s) =
     (if sc_state s = kActive \<or> sc_state s = kResendProcessing
      then s\<lparr> sc_pending_resend := None, sc_state := kAwaitingLogout \<rparr> else s)"
  by (simp_all add: BeginLogon_def OnLogonAccepted_def BeginLogout_def)

lemma core_effect_resend [core_effects]:
  "snd (BeginResend b e s) =
     (if (sc_state s = kActive \<or> sc_state s = kAwaitingLogout) \<and> b \<noteq> 0 \<and> b \<le> e
      then s\<lparr> sc_pending_resend := Some \<lparr> rr_begin_seq = b, rr_end_seq = e \<rparr>,
              sc_resume_state := sc_state s, sc_state := kResendProcessing \<rparr>
      else s)"
  "snd (CompleteResend s) =
     (if sc_state s = kResendProcessing
      then s\<lparr> sc_pending_resend := None, sc_state := sc_resume_state s, sc_resend_completed := True \<rparr>
      else s)"
  "snd (ConsumeResendCompleted s) = s\<lparr> sc_resend_completed := False \<rparr>"
  by (auto simp: BeginResend_def CompleteResend_def ConsumeResendCompleted_def)

lemma core_effect_inbound [core_effects]:
  "snd (AdvanceInboundExpectedSeq n s) =
     (if n = 0 \<or> n < sc_next_in_seq s then s
      else leave_resend_if_complete (s\<lparr> sc_next_in_seq := n \<rparr>))"
  by (simp add: AdvanceInboundExpectedSeq_def)

lemma core_effect_outbound [core_effects]:
  "snd (AllocateOutboundSeq s) =
     (if sequencing_state (sc_state s) \<and> sc_next_out_seq s \<noteq> u32_max
      then s\<lparr> sc_next_out_seq := sc_next_out_seq s + 1 \<rparr> else s)"
  by (simp add: AllocateOutboundSeq_def)

lemma core_effect_activity [core_effects]:
  "snd (RecordInboundActivity t s) = s\<lparr> sc_last_inbound_ns := t \<rparr>"
  "snd (RecordOutboundActivity t s) = s\<lparr> sc_last_outbound_ns := t \<rparr>"
  "SetWarmupCount c s = s\<lparr> sc_warmup_total := c, sc_warmup_remaining := c \<rparr>"
  "snd (ConsumeWarmupMessage s) =
     (if sc_warmup_remaining s = 0 then s else s\<lparr> sc_warmup_remaining := sc_warmup_remaining s - 1 \<rparr>)"
  by (simp_all add: RecordInboundActivity_def RecordOutboundActivity_def SetWarmupCount_def
      ConsumeWarmupMessage_def word_gt_0)

lemma core_effect_day_cut [core_effects]:
  "snd (TriggerDayCut s) =
     (if sc_state s = kDisconnected \<or> sc_state s = kActive
      then s\<lparr> sc_next_in_seq := 1, sc_next_out_seq := 1, sc_pending_resend := None \<rparr> else s)"
  "SetDayCutConfig c s = s\<lparr> sc_day_cut_config := c \<rparr>"
  "set_transport_profile p s = s\<lparr> sc_transport_profile := p \<rparr>"
  by (simp_all add: TriggerDayCut_def SetDayCutConfig_def set_transport_profile_def)

section \<open>Runs of the state machine\<close>

text \<open>
  The public interface as one step function: an operation, its arguments, and what it does to
  the object. The worker that owns a session calls these one after the other, so every
  history of a session is a list of operations.
\<close>

datatype CoreOp =
    OpBeginConnect | OpOnTransportConnected | OpClose | OpBeginRecovery | OpFinishRecovery
  | OpBeginLogon | OpRestoreSequenceState u32 u32 | OpAdvanceInboundExpectedSeq u32
  | OpOnLogonAccepted | OpBeginLogout | OpOnTransportClosed | OpAllocateOutboundSeq
  | OpObserveInboundSeq u32 | OpBeginResend u32 u32 | OpCompleteResend
  | OpRecordInboundActivity u64 | OpRecordOutboundActivity u64 | OpConsumeResendCompleted
  | OpSetWarmupCount u32 | OpConsumeWarmupMessage | OpCheckDayCut u64 | OpTriggerDayCut
  | OpSetDayCutConfig DayCutConfig | OpSetTransportProfile "TransportSessionProfile option"

fun core_step :: "CoreOp \<Rightarrow> SessionCore \<Rightarrow> Status \<times> SessionCore" where
  "core_step OpBeginConnect s = BeginConnect s"
| "core_step OpOnTransportConnected s = OnTransportConnected s"
| "core_step OpClose s = Close s"
| "core_step OpBeginRecovery s = BeginRecovery s"
| "core_step OpFinishRecovery s = FinishRecovery s"
| "core_step OpBeginLogon s = BeginLogon s"
| "core_step (OpRestoreSequenceState i o') s = RestoreSequenceState i o' s"
| "core_step (OpAdvanceInboundExpectedSeq n) s = AdvanceInboundExpectedSeq n s"
| "core_step OpOnLogonAccepted s = OnLogonAccepted s"
| "core_step OpBeginLogout s = BeginLogout s"
| "core_step OpOnTransportClosed s = OnTransportClosed s"
| "core_step OpAllocateOutboundSeq s = (result_status (fst (AllocateOutboundSeq s)), snd (AllocateOutboundSeq s))"
| "core_step (OpObserveInboundSeq n) s = ObserveInboundSeq n s"
| "core_step (OpBeginResend b e) s = BeginResend b e s"
| "core_step OpCompleteResend s = CompleteResend s"
| "core_step (OpRecordInboundActivity t) s = RecordInboundActivity t s"
| "core_step (OpRecordOutboundActivity t) s = RecordOutboundActivity t s"
| "core_step OpConsumeResendCompleted s = (Ok, snd (ConsumeResendCompleted s))"
| "core_step (OpSetWarmupCount n) s = (Ok, SetWarmupCount n s)"
| "core_step OpConsumeWarmupMessage s = (Ok, snd (ConsumeWarmupMessage s))"
| "core_step (OpCheckDayCut t) s = (Ok, CheckDayCut t s)"
| "core_step OpTriggerDayCut s = TriggerDayCut s"
| "core_step (OpSetDayCutConfig c) s = (Ok, SetDayCutConfig c s)"
| "core_step (OpSetTransportProfile p) s = (Ok, set_transport_profile p s)"

fun core_run :: "CoreOp list \<Rightarrow> SessionCore \<Rightarrow> SessionCore" where
  "core_run [] s = s"
| "core_run (x # xs) s = core_run xs (snd (core_step x s))"

text \<open>The sequence numbers a run hands out, in order.\<close>

fun core_allocated :: "CoreOp list \<Rightarrow> SessionCore \<Rightarrow> u32 list" where
  "core_allocated [] s = []"
| "core_allocated (x # xs) s =
     (if x = OpAllocateOutboundSeq
      then (case fst (AllocateOutboundSeq s) of Inr n \<Rightarrow> [n] | Inl _ \<Rightarrow> [])
      else []) @ core_allocated xs (snd (core_step x s))"

lemma core_run_append: "core_run (xs @ ys) s = core_run ys (core_run xs s)"
  by (induction xs arbitrary: s) auto

section \<open>The invariant\<close>

text \<open>
  Sequence numbers are positive and a pending resend range is a non-empty interval of
  positive numbers.
\<close>

definition range_wf :: "ResendRange option \<Rightarrow> bool" where
  "range_wf p \<longleftrightarrow> (case p of None \<Rightarrow> True | Some r \<Rightarrow> 0 < rr_begin_seq r \<and> rr_begin_seq r \<le> rr_end_seq r)"

definition core_inv :: "SessionCore \<Rightarrow> bool" where
  "core_inv s \<longleftrightarrow>
     sc_next_in_seq s \<noteq> 0 \<and> sc_next_out_seq s \<noteq> 0 \<and> range_wf (sc_pending_resend s)"

text \<open>The one call that breaks it: the inbound counter has no overflow check.\<close>

definition inbound_overflow :: "CoreOp \<Rightarrow> SessionCore \<Rightarrow> bool" where
  "inbound_overflow x s \<longleftrightarrow> x = OpObserveInboundSeq u32_max \<and> sc_next_in_seq s = u32_max"

fun core_run_no_overflow :: "CoreOp list \<Rightarrow> SessionCore \<Rightarrow> bool" where
  "core_run_no_overflow [] s = True"
| "core_run_no_overflow (x # xs) s =
     (\<not> inbound_overflow x s \<and> core_run_no_overflow xs (snd (core_step x s)))"

lemma core_inv_new: "core_inv (SessionCore_new config)"
  by (simp add: core_inv_def SessionCore_new_def range_wf_def)

lemma leave_resend_inv: "core_inv s \<Longrightarrow> core_inv (leave_resend_if_complete s)"
  by (auto simp: leave_resend_if_complete_def core_inv_def range_wf_def split: option.splits)

lemma ObserveInboundSeq_inv:
  assumes "core_inv s" and "\<not> (seq_num = u32_max \<and> sc_next_in_seq s = u32_max)"
  shows "core_inv (snd (ObserveInboundSeq seq_num s))"
proof -
  let ?n = "sc_next_in_seq s"
  consider "\<not> sequencing_state (sc_state s) \<or> seq_num < ?n" | "?n < seq_num" | "seq_num = ?n"
    by (metis linorder_neqE)
  then show ?thesis
  proof cases
    case 1
    then show ?thesis using assms(1) by (auto simp: ObserveInboundSeq_def)
  next
    case 2
    then have "?n \<le> seq_num - 1" by (rule word_le_pred)
    then show ?thesis using 2 assms(1)
      by (auto simp: ObserveInboundSeq_def Let_def core_inv_def range_wf_def word_gt_0
          split: option.splits bool.splits)
  next
    case 3
    then have "core_inv (s\<lparr> sc_next_in_seq := ?n + 1 \<rparr>)"
      using assms by (auto simp: core_inv_def word_Suc_neq_0)
    then show ?thesis using 3 assms(1)
      by (auto simp: ObserveInboundSeq_def intro: leave_resend_inv)
  qed
qed

lemma core_inv_day_cut_date [simp]: "core_inv (s\<lparr> sc_last_day_cut_date := d \<rparr>) = core_inv s"
  by (simp add: core_inv_def)

lemma CheckDayCut_inv: "core_inv s \<Longrightarrow> core_inv (CheckDayCut t s)"
  by (simp add: CheckDayCut_def Let_def core_effects) (simp add: core_inv_def range_wf_def)

lemma AdvanceInboundExpectedSeq_inv: "core_inv s \<Longrightarrow> core_inv (snd (AdvanceInboundExpectedSeq n s))"
  by (auto simp: core_effects core_inv_def intro!: leave_resend_inv [unfolded core_inv_def])

lemma core_step_inv:
  assumes "core_inv s" and "\<not> inbound_overflow x s"
  shows "core_inv (snd (core_step x s))"
proof (cases x)
  case (OpObserveInboundSeq n)
  then show ?thesis using assms by (auto simp: inbound_overflow_def intro: ObserveInboundSeq_inv)
next
  case (OpAdvanceInboundExpectedSeq n)
  then show ?thesis using assms by (simp add: AdvanceInboundExpectedSeq_inv)
next
  case (OpCheckDayCut t)
  then show ?thesis using assms by (simp add: CheckDayCut_inv)
qed (use assms in \<open>simp_all add: core_effects core_inv_def range_wf_def word_Suc_neq_0 word_gt_0\<close>)

section \<open>Gap recovery\<close>

fun ObserveInboundSeqs :: "u32 list \<Rightarrow> SessionCore \<Rightarrow> Status list \<times> SessionCore" where
  "ObserveInboundSeqs [] s = ([], s)"
| "ObserveInboundSeqs (q # qs) s =
     (let (st, s') = ObserveInboundSeq q s; (sts, s'') = ObserveInboundSeqs qs s' in (st # sts, s''))"

lemma ObserveInboundSeq_expected:
  assumes "sc_state s = kResendProcessing" and "sc_pending_resend s = Some r"
  shows "ObserveInboundSeq (sc_next_in_seq s) s =
    (Ok, let n = sc_next_in_seq s + 1 in
         if rr_end_seq r < n
         then s\<lparr> sc_next_in_seq := n, sc_pending_resend := None, sc_state := sc_resume_state s,
                 sc_resend_completed := True \<rparr>
         else s\<lparr> sc_next_in_seq := n \<rparr>)"
  using assms by (simp add: ObserveInboundSeq_def sequencing_state_def leave_resend_if_complete_def Let_def)

lemma upt_of_nat_Cons:
  assumes "unat (n :: u32) < m"
  shows "map of_nat [unat n ..< m] = n # map of_nat [Suc (unat n) ..< m]"
  using assms by (simp add: upt_conv_Cons)

lemma ObserveInboundSeqs_fill:
  assumes "sc_state s = kResendProcessing" and "sc_pending_resend s = Some r"
    and "sc_next_in_seq s \<le> rr_end_seq r" and "rr_end_seq r \<noteq> u32_max"
  shows "ObserveInboundSeqs (map of_nat [unat (sc_next_in_seq s) ..< Suc (unat (rr_end_seq r))]) s =
    (replicate (Suc (unat (rr_end_seq r)) - unat (sc_next_in_seq s)) Ok,
     s\<lparr> sc_next_in_seq := rr_end_seq r + 1, sc_pending_resend := None,
        sc_state := sc_resume_state s, sc_resend_completed := True \<rparr>)"
  using assms
proof (induction "unat (rr_end_seq r) - unat (sc_next_in_seq s)" arbitrary: s)
  case 0
  then have eq: "rr_end_seq r = sc_next_in_seq s"
    by (simp add: word_le_nat_alt word_unat_eq_iff)
  have "rr_end_seq r < sc_next_in_seq s + 1"
    using eq 0 by (simp add: word_less_nat_alt unat_Suc_u32)
  then show ?case
    using 0 eq by (simp add: ObserveInboundSeq_expected Let_def)
next
  case (Suc d)
  let ?n = "sc_next_in_seq s" and ?e = "rr_end_seq r"
  let ?s = "s\<lparr> sc_next_in_seq := ?n + 1 \<rparr>"
  have lt: "unat ?n < unat ?e" using Suc.hyps(2) by linarith
  have nmax: "?n \<noteq> u32_max" using lt unat_le_u32_max [of ?e] by (metis not_less unat_u32_max)
  then have un: "unat (?n + 1) = Suc (unat ?n)" by (rule unat_Suc_u32)
  have "\<not> ?e < ?n + 1" using lt un by (simp add: word_less_nat_alt)
  then have step: "ObserveInboundSeq ?n s = (Ok, ?s)"
    using Suc.prems by (simp add: ObserveInboundSeq_expected Let_def)
  have IH: "ObserveInboundSeqs (map of_nat [unat (?n + 1) ..< Suc (unat ?e)]) ?s =
      (replicate (Suc (unat ?e) - unat (?n + 1)) Ok,
       ?s\<lparr> sc_next_in_seq := ?e + 1, sc_pending_resend := None,
          sc_state := sc_resume_state ?s, sc_resend_completed := True \<rparr>)"
    using Suc.hyps(1) [of ?s] Suc.hyps(2) Suc.prems lt un by (simp add: word_le_nat_alt)
  have "map of_nat [unat ?n ..< Suc (unat ?e)] = ?n # map of_nat [unat (?n + 1) ..< Suc (unat ?e)]"
    using upt_of_nat_Cons [of ?n "Suc (unat ?e)"] lt un by simp
  moreover have "Suc (unat ?e) - unat ?n = Suc (Suc (unat ?e) - unat (?n + 1))"
    using lt un by linarith
  ultimately show ?case
    by (simp add: step IH del: upt_Suc)
qed

lemma ObserveInboundSeq_gap:
  assumes "sequencing_state (sc_state s)" and "sc_state s \<noteq> kResendProcessing"
    and "sc_next_in_seq s < q"
  shows "ObserveInboundSeq q s =
    (InvalidArgument ''inbound sequence gap detected'',
     s\<lparr> sc_pending_resend := Some \<lparr> rr_begin_seq = sc_next_in_seq s, rr_end_seq = q - 1 \<rparr>,
        sc_resume_state := sc_state s, sc_state := kResendProcessing \<rparr>)"
proof -
  have "\<not> q < sc_next_in_seq s" using assms(3) by simp
  then show ?thesis using assms by (simp add: ObserveInboundSeq_def)
qed

text \<open>C2: gap recovery. A number ahead of the expected one puts the session into resend processing;
  observing exactly the missing numbers in order is accepted every time and brings the session
  back to the state it was in, with nothing pending, the counter at the number that revealed
  the gap and the completion flag raised.\<close>

theorem gap_recovery:
  assumes "sequencing_state (sc_state s)" and "sc_state s \<noteq> kResendProcessing"
    and "sc_next_in_seq s < q"
  shows "\<exists>s1. ObserveInboundSeq q s = (InvalidArgument ''inbound sequence gap detected'', s1) \<and>
    sc_state s1 = kResendProcessing \<and>
    ObserveInboundSeqs (map of_nat [unat (sc_next_in_seq s) ..< unat q]) s1 =
      (replicate (unat q - unat (sc_next_in_seq s)) Ok,
       s\<lparr> sc_next_in_seq := q, sc_pending_resend := None, sc_resume_state := sc_state s,
          sc_resend_completed := True \<rparr>)"
proof -
  let ?n = "sc_next_in_seq s"
  let ?r = "\<lparr> rr_begin_seq = ?n, rr_end_seq = q - 1 \<rparr>"
  let ?s1 = "s\<lparr> sc_pending_resend := Some ?r, sc_resume_state := sc_state s, sc_state := kResendProcessing \<rparr>"
  have q0: "q \<noteq> 0" using assms(3) by auto
  have "0 < unat q" using q0 by (simp add: unat_gt_0)
  then have "unat q - 1 < 4294967295" using unat_lt_2p32 [of q] by linarith
  then have "unat (q - 1) < unat u32_max" using q0 by (simp add: unat_pred)
  then have "q - 1 \<noteq> u32_max" by auto
  moreover have "?n \<le> q - 1" using assms(3) by (rule word_le_pred)
  moreover have "Suc (unat (q - 1)) = unat q" using q0 unat_gt_0 [of q] by (simp add: unat_pred)
  ultimately show ?thesis
    using ObserveInboundSeq_gap [OF assms] ObserveInboundSeqs_fill [of ?s1 ?r]
    by (simp del: upt_Suc ObserveInboundSeqs.simps)
qed

section \<open>Outbound numbering\<close>

fun resets_outbound :: "CoreOp \<Rightarrow> bool" where
  "resets_outbound (OpRestoreSequenceState _ _) = True"
| "resets_outbound OpTriggerDayCut = True"
| "resets_outbound (OpCheckDayCut _) = True"
| "resets_outbound _ = False"

lemma leave_resend_next_out [simp]: "sc_next_out_seq (leave_resend_if_complete s) = sc_next_out_seq s"
  by (simp add: leave_resend_if_complete_def split: option.splits)

lemma ObserveInboundSeq_next_out [simp]: "sc_next_out_seq (snd (ObserveInboundSeq q s)) = sc_next_out_seq s"
  by (simp add: ObserveInboundSeq_def Let_def split: option.splits bool.splits)

lemma core_step_next_out:
  assumes "\<not> resets_outbound x" and "x \<noteq> OpAllocateOutboundSeq"
  shows "sc_next_out_seq (snd (core_step x s)) = sc_next_out_seq s"
proof (cases x)
  case (OpObserveInboundSeq q)
  then show ?thesis by simp
next
  case (OpAdvanceInboundExpectedSeq q)
  then show ?thesis by (simp add: AdvanceInboundExpectedSeq_def)
qed (use assms in \<open>simp_all add: core_effects\<close>)

lemma core_allocated_upt:
  assumes "list_all (\<lambda>x. \<not> resets_outbound x) ops"
  shows "sc_next_out_seq s \<le> sc_next_out_seq (core_run ops s) \<and>
    core_allocated ops s = map of_nat [unat (sc_next_out_seq s) ..< unat (sc_next_out_seq (core_run ops s))]"
  using assms
proof (induction ops arbitrary: s)
  case Nil
  then show ?case by simp
next
  case (Cons x xs)
  let ?s = "snd (core_step x s)"
  have IH: "sc_next_out_seq ?s \<le> sc_next_out_seq (core_run xs ?s)"
    "core_allocated xs ?s = map of_nat [unat (sc_next_out_seq ?s) ..< unat (sc_next_out_seq (core_run xs ?s))]"
    using Cons by auto
  show ?case
  proof (cases "x = OpAllocateOutboundSeq \<and> result_ok (fst (AllocateOutboundSeq s))")
    case True
    then have st: "sc_next_out_seq ?s = sc_next_out_seq s + 1"
      "fst (AllocateOutboundSeq s) = Inr (sc_next_out_seq s)" "sc_next_out_seq s \<noteq> u32_max"
      by (auto simp: AllocateOutboundSeq_def split: if_splits)
    then have lt: "Suc (unat (sc_next_out_seq s)) \<le> unat (sc_next_out_seq (core_run xs ?s))"
      using IH(1) unat_Suc_u32 by (simp add: word_le_nat_alt)
    then show ?thesis
      using True st IH unat_Suc_u32 [OF st(3)] upt_of_nat_Cons [of "sc_next_out_seq s"]
      by (simp add: word_le_nat_alt)
  next
    case False
    then have "sc_next_out_seq ?s = sc_next_out_seq s"
    proof (cases "x = OpAllocateOutboundSeq")
      case True
      with False show ?thesis by (auto simp: AllocateOutboundSeq_def)
    next
      case False
      then show ?thesis using Cons.prems by (intro core_step_next_out) simp_all
    qed
    moreover have "core_allocated (x # xs) s = core_allocated xs ?s"
      using False by (auto split: sum.splits)
    ultimately show ?thesis using IH by simp
  qed
qed


section \<open>Logon safety\<close>

text \<open>A logon accepted on the current transport connection.\<close>

fun closes_transport :: "CoreOp \<Rightarrow> bool" where
  "closes_transport OpOnTransportClosed = True"
| "closes_transport OpClose = True"
| "closes_transport _ = False"

definition logon_accepted :: "CoreOp list \<Rightarrow> SessionCore \<Rightarrow> bool" where
  "logon_accepted ops s \<longleftrightarrow>
     (\<exists>pre post. ops = pre @ OpOnLogonAccepted # post \<and>
        fst (OnLogonAccepted (core_run pre s)) = Ok \<and> list_all (\<lambda>x. \<not> closes_transport x) post)"

text \<open>The session is active, or will be once recovery or resend processing ends.\<close>

definition active_or_resuming :: "SessionCore \<Rightarrow> bool" where
  "active_or_resuming s \<longleftrightarrow>
     sc_state s = kActive \<or>
     (sc_state s = kRecovering \<or> sc_state s = kResendProcessing) \<and> sc_resume_state s = kActive"

lemma logon_accepted_snoc:
  "logon_accepted ops s \<Longrightarrow> \<not> closes_transport x \<Longrightarrow> logon_accepted (ops @ [x]) s"
  by (fastforce simp: logon_accepted_def)

lemma leave_resend_active:
  "active_or_resuming (leave_resend_if_complete s) \<Longrightarrow> active_or_resuming s"
  by (auto simp: leave_resend_if_complete_def active_or_resuming_def split: option.splits if_splits)

lemma active_or_resuming_frame [simp]:
  "active_or_resuming (s\<lparr> sc_next_in_seq := n \<rparr>) = active_or_resuming s"
  "active_or_resuming (s\<lparr> sc_next_out_seq := n \<rparr>) = active_or_resuming s"
  "active_or_resuming (s\<lparr> sc_pending_resend := p \<rparr>) = active_or_resuming s"
  "active_or_resuming (s\<lparr> sc_resend_completed := b \<rparr>) = active_or_resuming s"
  "active_or_resuming (s\<lparr> sc_last_day_cut_date := d \<rparr>) = active_or_resuming s"
  by (simp_all add: active_or_resuming_def)

lemma ObserveInboundSeq_active:
  "active_or_resuming (snd (ObserveInboundSeq q s)) \<Longrightarrow> active_or_resuming s"
  by (auto simp: ObserveInboundSeq_def Let_def dest!: leave_resend_active
      split: if_splits option.splits bool.splits) (auto simp: active_or_resuming_def)

lemma AdvanceInboundExpectedSeq_active:
  "active_or_resuming (snd (AdvanceInboundExpectedSeq q s)) \<Longrightarrow> active_or_resuming s"
  by (auto simp: AdvanceInboundExpectedSeq_def dest!: leave_resend_active split: if_splits)

lemma CheckDayCut_active: "active_or_resuming (CheckDayCut t s) \<Longrightarrow> active_or_resuming s"
  by (simp add: CheckDayCut_def TriggerDayCut_def Let_def split: if_splits)

lemma core_step_active:
  assumes "active_or_resuming (snd (core_step x s))"
  shows "(x = OpOnLogonAccepted \<and> fst (OnLogonAccepted s) = Ok) \<or>
    (active_or_resuming s \<and> \<not> closes_transport x)"
proof (cases x)
  case (OpObserveInboundSeq q)
  then show ?thesis using assms ObserveInboundSeq_active by auto
next
  case (OpAdvanceInboundExpectedSeq q)
  then show ?thesis using assms AdvanceInboundExpectedSeq_active by auto
next
  case (OpCheckDayCut t)
  then show ?thesis using assms CheckDayCut_active by auto
next
  case OpOnLogonAccepted
  then show ?thesis using assms
    by (cases "sc_state s = kConnected \<or> sc_state s = kPendingLogon")
      (auto simp: active_or_resuming_def OnLogonAccepted_def)
qed (use assms in \<open>auto simp: active_or_resuming_def core_effects split: if_splits\<close>)

lemma core_run_active:
  "active_or_resuming (core_run ops (SessionCore_new config)) \<Longrightarrow> logon_accepted ops (SessionCore_new config)"
proof (induction ops rule: rev_induct)
  case Nil
  then show ?case by (simp add: SessionCore_new_def active_or_resuming_def)
next
  case (snoc x xs)
  let ?s = "core_run xs (SessionCore_new config)"
  have "active_or_resuming (snd (core_step x ?s))"
    using snoc.prems by (simp add: core_run_append)
  then consider "x = OpOnLogonAccepted" "fst (OnLogonAccepted ?s) = Ok"
    | "active_or_resuming ?s" "\<not> closes_transport x"
    by (blast dest: core_step_active)
  then show ?case
  proof cases
    case 1
    then show ?thesis unfolding logon_accepted_def by (intro exI [of _ xs] exI [of _ "[]"]) simp
  next
    case 2
    then show ?thesis by (intro logon_accepted_snoc snoc.IH)
  qed
qed

section \<open>Day cut\<close>

lemma CheckDayCut_once:
  assumes "effective_day_cut_date (sc_day_cut_config s) t1 = effective_day_cut_date (sc_day_cut_config s) t2"
  shows "CheckDayCut t2 (CheckDayCut t1 s) = CheckDayCut t1 s"
  using assms by (simp add: CheckDayCut_def TriggerDayCut_def Let_def)

lemma abs_sdiv_le: "b > 0 \<Longrightarrow> \<bar>(a::int) sdiv b\<bar> \<le> \<bar>a\<bar> div b"
  by (simp add: signed_divide_int_def abs_mult sgn_if pos_imp_zdiv_nonneg_iff)

lemma day_cut_date_fits_int32:
  assumes "\<bar>dc_utc_offset_seconds c\<bar> \<le> 2 ^ 31"
  shows "\<bar>effective_day_cut_date c t\<bar> < 2 ^ 31"
proof -
  let ?e = "int (unat (t div 1000000000))"
  have "unat t div 1000000000 < 18446744074" using unat_lt_2p64 [of t] by linarith
  then have e: "0 \<le> ?e" "?e < 18446744074" by (simp_all add: unat_div)
  define a where "a = (if dc_mode c = kFixedLocalTime then ?e + dc_utc_offset_seconds c else ?e)"
  have "\<bar>dc_utc_offset_seconds c\<bar> \<le> 2147483648" using assms by simp
  then have "\<bar>a\<bar> < 20594227722" unfolding a_def using e by (simp only: split: if_splits) arith
  then have "\<bar>a\<bar> div 86400 \<le> 20594227722 div 86400" by (intro zdiv_mono1) auto
  then have "\<bar>a sdiv 86400\<bar> \<le> 238359" using abs_sdiv_le [of 86400 a] by simp
  moreover have "effective_day_cut_date c t = a sdiv 86400 \<or> effective_day_cut_date c t = a sdiv 86400 - 1"
    unfolding effective_day_cut_date_def Let_def a_def by simp
  ultimately show ?thesis by auto
qed

section \<open>Properties of the session state machine\<close>

definition sample_session_config :: SessionConfig where
  "sample_session_config =
     \<lparr> cfg_session_id = 7, cfg_key = ForInitiator ''BUY'' ''SELL'' ''FIX.4.4'', cfg_profile_id = 44,
       cfg_default_appl_ver_id = [], cfg_heartbeat_interval_seconds = 30, cfg_is_initiator = True \<rparr>"

text \<open>A session that has just been logged on.\<close>

definition sample_active_core :: SessionCore where
  "sample_active_core = core_run [OpOnTransportConnected, OpOnLogonAccepted] (SessionCore_new sample_session_config)"

lemma sample_active_core_eq:
  "sample_active_core = (SessionCore_new sample_session_config)\<lparr> sc_state := kActive \<rparr>"
  by (simp add: sample_active_core_def core_effects SessionCore_new_def)

text \<open>C1: every history of a session keeps its counters positive and its pending resend range
  a non-empty interval, as long as the inbound counter does not overflow.\<close>

theorem session_core_invariant:
  assumes "core_run_no_overflow ops (SessionCore_new config)"
  shows "core_inv (core_run ops (SessionCore_new config))"
proof -
  have "core_inv s \<Longrightarrow> core_run_no_overflow ops s \<Longrightarrow> core_inv (core_run ops s)" for s
    by (induction ops arbitrary: s) (auto intro: core_step_inv)
  then show ?thesis using assms core_inv_new by blast
qed

theorem session_core_invariant_witness:
  "core_inv (core_run [OpOnTransportConnected, OpObserveInboundSeq 4, OpBeginLogout]
     (SessionCore_new sample_session_config))"
  by (rule session_core_invariant) (simp add: inbound_overflow_def)

theorem gap_recovery_witness:
  "\<exists>s1. ObserveInboundSeq 3 sample_active_core = (InvalidArgument ''inbound sequence gap detected'', s1) \<and>
    sc_state s1 = kResendProcessing \<and>
    ObserveInboundSeqs [1, 2] s1 =
      ([Ok, Ok], sample_active_core\<lparr> sc_next_in_seq := 3, sc_pending_resend := None,
                   sc_resume_state := kActive, sc_resend_completed := True \<rparr>)"
proof -
  have "sequencing_state (sc_state sample_active_core)" "sc_state sample_active_core \<noteq> kResendProcessing"
    "sc_next_in_seq sample_active_core < 3" "sc_state sample_active_core = kActive"
    "sc_next_in_seq sample_active_core = 1"
    by (simp_all add: sample_active_core_eq SessionCore_new_def sequencing_state_def)
  note s = this
  have "map of_nat [unat (1 :: u32) ..< unat (3 :: u32)] = [1, 2 :: u32]"
    "unat (3 :: u32) - unat (1 :: u32) = Suc (Suc 0)"
    by (simp_all add: upt_rec)
  then show ?thesis
    using gap_recovery [OF s(1-3)] unfolding s(4,5)
    by (simp add: numeral_2_eq_2 del: ObserveInboundSeqs.simps)
qed

text \<open>C3: outbound numbering. Over any history that does not restore or reset the sequence state,
  the numbers handed out are exactly the consecutive numbers from the old counter up to the
  new one: no gap, no repetition, in order.\<close>

theorem outbound_numbers_contiguous:
  assumes "list_all (\<lambda>x. \<not> resets_outbound x) ops"
  shows "sc_next_out_seq s \<le> sc_next_out_seq (core_run ops s) \<and>
    core_allocated ops s = map of_nat [unat (sc_next_out_seq s) ..< unat (sc_next_out_seq (core_run ops s))]"
  using assms by (rule core_allocated_upt)

theorem outbound_numbers_contiguous_witness:
  "core_allocated [OpAllocateOutboundSeq, OpObserveInboundSeq 1, OpAllocateOutboundSeq] sample_active_core =
     map of_nat [unat (sc_next_out_seq sample_active_core) ..<
       unat (sc_next_out_seq (core_run [OpAllocateOutboundSeq, OpObserveInboundSeq 1, OpAllocateOutboundSeq]
         sample_active_core))]"
  using outbound_numbers_contiguous [of "[OpAllocateOutboundSeq, OpObserveInboundSeq 1, OpAllocateOutboundSeq]"
      sample_active_core] by simp

text \<open>C4: logon safety. A session that is active, or resumes to active after recovery or resend
  processing, has had a logon accepted since its transport was last closed.\<close>

theorem active_only_after_logon:
  assumes "active_or_resuming (core_run ops (SessionCore_new config))"
  shows "logon_accepted ops (SessionCore_new config)"
  using assms by (rule core_run_active)

theorem active_only_after_logon_witness:
  "logon_accepted [OpOnTransportConnected, OpOnLogonAccepted] (SessionCore_new sample_session_config)"
  by (rule active_only_after_logon)
    (simp add: active_or_resuming_def core_effects SessionCore_new_def)

text \<open>C5: counter limits. The outbound counter refuses to pass its last value and leaves the session
  untouched; the inbound counter has no such check and wraps to zero, a value every other
  operation rejects as a sequence number.\<close>

theorem counters_at_limit:
  assumes "sequencing_state (sc_state s)" and "sc_state s \<noteq> kResendProcessing"
    and "sc_next_out_seq s = u32_max" and "sc_next_in_seq s = u32_max"
  shows "AllocateOutboundSeq s =
      (Inl (InvalidArgument ''outbound sequence number overflow; session reset required''), s) \<and>
    ObserveInboundSeq u32_max s = (Ok, s\<lparr> sc_next_in_seq := 0 \<rparr>)"
  using assms
  by (simp add: AllocateOutboundSeq_def ObserveInboundSeq_def leave_resend_if_complete_def
      split: option.splits)

theorem counters_at_limit_witness:
  "ObserveInboundSeq u32_max (sample_active_core\<lparr> sc_next_in_seq := u32_max, sc_next_out_seq := u32_max \<rparr>) =
     (Ok, sample_active_core\<lparr> sc_next_in_seq := 0, sc_next_out_seq := u32_max \<rparr>)"
  using counters_at_limit [of "sample_active_core\<lparr> sc_next_in_seq := u32_max, sc_next_out_seq := u32_max \<rparr>"]
  by (simp add: sample_active_core_eq SessionCore_new_def sequencing_state_def)



text \<open>C7: a day cut that falls while the session is neither disconnected nor active is recorded as
  done although nothing was reset, and a later check on the same session day does not make up
  for it.\<close>

theorem day_cut_lost:
  assumes "dc_mode (sc_day_cut_config s) = kFixedUtcTime"
    and "sc_state s \<noteq> kDisconnected" and "sc_state s \<noteq> kActive"
    and "0 \<le> sc_last_day_cut_date s"
    and "sc_last_day_cut_date s < effective_day_cut_date (sc_day_cut_config s) t"
  shows "CheckDayCut t s = s\<lparr> sc_last_day_cut_date := effective_day_cut_date (sc_day_cut_config s) t \<rparr> \<and>
    CheckDayCut t ((CheckDayCut t s)\<lparr> sc_state := kActive \<rparr>) = (CheckDayCut t s)\<lparr> sc_state := kActive \<rparr>"
  using assms by (simp add: CheckDayCut_def core_effects Let_def)

text \<open>Midnight UTC of the day after the epoch, for a session that waits for the logout reply.\<close>

definition sample_day_cut_core :: SessionCore where
  "sample_day_cut_core = sample_active_core\<lparr> sc_state := kAwaitingLogout, sc_last_day_cut_date := 0,
     sc_day_cut_config := default_day_cut_config\<lparr> dc_mode := kFixedUtcTime \<rparr> \<rparr>"

lemma sample_day_cut_date:
  "effective_day_cut_date (sc_day_cut_config sample_day_cut_core) 86400000000000 = 1"
  by (simp add: sample_day_cut_core_def effective_day_cut_date_def default_day_cut_config_def unat_div
      signed_divide_int_def signed_modulo_int_def)

theorem day_cut_lost_witness:
  "CheckDayCut 86400000000000 sample_day_cut_core = sample_day_cut_core\<lparr> sc_last_day_cut_date := 1 \<rparr>"
  using day_cut_lost [of sample_day_cut_core 86400000000000]
  unfolding sample_day_cut_date
  by (simp add: sample_day_cut_core_def default_day_cut_config_def)

end
