(* ===== verification/Session_Store.thy ===== *)
theory Session_Store
  imports Prelude
begin

text \<open>
  \<^verbatim>\<open>store/session_store.h\<close>: the persistence contract of the engine. It holds the records a
  store exchanges with its clients, the default methods of the abstract class \<^verbatim>\<open>SessionStore\<close>,
  and the locale \<open>outbound_store\<close>, the laws the replay planner and the recovery code rely on.
  Concrete stores are separate theories that interpret the locale.
\<close>

unbundle bit_operations_syntax

section \<open>Records\<close>

definition kAdmin :: u16 where "kAdmin = push_bit 0 1"

definition kPossDup :: u16 where "kPossDup = push_bit 1 1"

definition kGapFill :: u16 where "kGapFill = push_bit 2 1"

record MessageRecord =
  mr_session_id :: u64
  mr_seq_num :: u32
  mr_timestamp_ns :: u64
  mr_flags :: u16
  mr_payload :: bytes
  mr_body_start_offset :: u32

text \<open>
  A view carries the bytes its span denotes at the time it is made; that a span dies with
  later writes of its owner is not modelled.
\<close>

record MessageRecordView =
  mv_session_id :: u64
  mv_seq_num :: u32
  mv_timestamp_ns :: u64
  mv_flags :: u16
  mv_payload :: bytes
  mv_body_start_offset :: u32

definition is_admin :: "MessageRecord \<Rightarrow> bool" where
  "is_admin r \<longleftrightarrow> mr_flags r AND kAdmin \<noteq> 0"

definition is_gap_fill :: "MessageRecord \<Rightarrow> bool" where
  "is_gap_fill r \<longleftrightarrow> mr_flags r AND kGapFill \<noteq> 0"

definition view_is_admin :: "MessageRecordView \<Rightarrow> bool" where
  "view_is_admin v \<longleftrightarrow> mv_flags v AND kAdmin \<noteq> 0"

definition view_is_gap_fill :: "MessageRecordView \<Rightarrow> bool" where
  "view_is_gap_fill v \<longleftrightarrow> mv_flags v AND kGapFill \<noteq> 0"

definition record_view :: "MessageRecord \<Rightarrow> MessageRecordView" where
  "record_view r =
     \<lparr> mv_session_id = mr_session_id r, mv_seq_num = mr_seq_num r, mv_timestamp_ns = mr_timestamp_ns r,
       mv_flags = mr_flags r, mv_payload = mr_payload r, mv_body_start_offset = mr_body_start_offset r \<rparr>"

definition ToOwned :: "MessageRecordView \<Rightarrow> MessageRecord" where
  "ToOwned v =
     \<lparr> mr_session_id = mv_session_id v, mr_seq_num = mv_seq_num v, mr_timestamp_ns = mv_timestamp_ns v,
       mr_flags = mv_flags v, mr_payload = mv_payload v, mr_body_start_offset = mv_body_start_offset v \<rparr>"

record MessageRecordViewRange =
  range_owned_storage :: "MessageRecord list"
  range_payload_storage :: bytes
  range_records :: "MessageRecordView list"

definition empty_range :: MessageRecordViewRange where
  "empty_range = \<lparr> range_owned_storage = [], range_payload_storage = [], range_records = [] \<rparr>"

record SessionRecoveryState =
  rs_session_id :: u64
  rs_next_in_seq :: u32
  rs_next_out_seq :: u32
  rs_last_inbound_ns :: u64
  rs_last_outbound_ns :: u64
  rs_active :: bool

definition default_recovery_state :: SessionRecoveryState where
  "default_recovery_state =
     \<lparr> rs_session_id = 0, rs_next_in_seq = 1, rs_next_out_seq = 1,
       rs_last_inbound_ns = 0, rs_last_outbound_ns = 0, rs_active = False \<rparr>"

section \<open>Default methods\<close>

text \<open>
  The virtual methods a store inherits unless it overrides them; the pure virtual method they
  call is a parameter.
\<close>

definition default_SaveView ::
    "(MessageRecord \<Rightarrow> 'st \<Rightarrow> Status \<times> 'st) \<Rightarrow> MessageRecordView \<Rightarrow> 'st \<Rightarrow> Status \<times> 'st" where
  "default_SaveView save v st = save (ToOwned v) st"

definition default_LoadOutboundRangeViews ::
    "(u64 \<Rightarrow> u32 \<Rightarrow> u32 \<Rightarrow> 'st \<Rightarrow> MessageRecord list Result) \<Rightarrow>
     u64 \<Rightarrow> u32 \<Rightarrow> u32 \<Rightarrow> 'st \<Rightarrow> MessageRecordViewRange Result" where
  "default_LoadOutboundRangeViews load session_id begin_seq end_seq st =
     (case load session_id begin_seq end_seq st of
        Inl e \<Rightarrow> Inl e
      | Inr records \<Rightarrow>
          Inr (empty_range\<lparr> range_owned_storage := records, range_records := map record_view records \<rparr>))"

definition default_LoadInboundRange :: "u64 \<Rightarrow> u32 \<Rightarrow> u32 \<Rightarrow> 'st \<Rightarrow> MessageRecord list Result" where
  "default_LoadInboundRange session_id begin_seq end_seq st = Inr []"

definition default_SaveViewAndRecoveryState ::
    "(MessageRecordView \<Rightarrow> 'st \<Rightarrow> Status \<times> 'st) \<Rightarrow> (SessionRecoveryState \<Rightarrow> 'st \<Rightarrow> Status \<times> 'st) \<Rightarrow>
     MessageRecordView \<Rightarrow> SessionRecoveryState \<Rightarrow> 'st \<Rightarrow> Status \<times> 'st" where
  "default_SaveViewAndRecoveryState save_view save_recovery v state st =
     (case save_view v st of
        (status, st') \<Rightarrow> if \<not> status_ok status then (status, st') else save_recovery state st')"

lemma ToOwned_record_view [simp]: "ToOwned (record_view r) = r"
  by (simp add: ToOwned_def record_view_def)

lemma record_view_ToOwned [simp]: "record_view (ToOwned v) = v"
  by (simp add: ToOwned_def record_view_def)

lemma record_view_simps [simp]:
  "mv_seq_num (record_view r) = mr_seq_num r"
  "mv_session_id (record_view r) = mr_session_id r"
  "view_is_admin (record_view r) = is_admin r"
  "view_is_gap_fill (record_view r) = is_gap_fill r"
  by (simp_all add: record_view_def view_is_admin_def view_is_gap_fill_def is_admin_def is_gap_fill_def)

lemma ToOwned_simps [simp]:
  "mr_seq_num (ToOwned v) = mv_seq_num v"
  "mr_session_id (ToOwned v) = mv_session_id v"
  by (simp_all add: ToOwned_def)

section \<open>The contract\<close>

text \<open>The sequence numbers of an inclusive range, in order.\<close>

definition seq_range :: "u32 \<Rightarrow> u32 \<Rightarrow> u32 list" where
  "seq_range b e = map of_nat [unat b ..< Suc (unat e)]"

subsection \<open>Sequence ranges and lookups by key\<close>

lemma set_seq_range: "set (seq_range b e) = {q. b \<le> q \<and> q \<le> e}"
proof -
  have "q \<in> set (seq_range b e)" if "b \<le> q" "q \<le> e" for q
    using that by (auto simp: seq_range_def word_le_nat_alt image_iff less_Suc_eq_le simp del: upt_Suc intro!: bexI [of _ "unat q"])
  moreover have "b \<le> q \<and> q \<le> e" if mem: "q \<in> set (seq_range b e)" for q
  proof -
    obtain n where "n \<in> set [unat b ..< Suc (unat e)]" and q: "q = of_nat n"
      using mem unfolding seq_range_def set_map by blast
    then have n: "q = of_nat n" "unat b \<le> n" "n \<le> unat e" by auto
    then have "n < 4294967296" using unat_lt_2p32 [of e] by linarith
    then show ?thesis using n by (simp add: word_le_nat_alt unat_of_nat)
  qed
  ultimately show ?thesis by auto
qed

lemma sorted_seq_range: "sorted_wrt (<) (seq_range b e)"
proof -
  have "sorted_wrt (\<lambda>m n. (of_nat m :: u32) < of_nat n) [unat b ..< Suc (unat e)]"
  proof (rule sorted_wrt_mono_rel [OF _ sorted_wrt_upt])
    fix m n assume "m \<in> set [unat b ..< Suc (unat e)]" "n \<in> set [unat b ..< Suc (unat e)]" "m < n"
    then have "n < 4294967296" using unat_lt_2p32 [of e] by (auto simp del: unat_lt_2p32)
    then show "(of_nat m :: u32) < of_nat n"
      using \<open>m < n\<close> by (simp add: word_less_nat_alt unat_of_nat)
  qed
  then show ?thesis by (simp add: seq_range_def sorted_wrt_map)
qed

lemma find_key_Some:
  assumes "sorted_wrt (<) (map (key :: 'a \<Rightarrow> u32) rs)"
  shows "find (\<lambda>r. key r = q) rs = Some r \<longleftrightarrow> r \<in> set rs \<and> key r = q"
  using assms by (induction rs) auto

text \<open>Looking the keys of a sorted list up one by one selects the entries with those keys.\<close>

lemma map_filter_find:
  assumes "sorted_wrt (<) (map (key :: 'a \<Rightarrow> u32) rs)" and "sorted_wrt (<) qs"
  shows "List.map_filter (\<lambda>q. find (\<lambda>r. key r = q) rs) qs = filter (\<lambda>r. key r \<in> set qs) rs"
    (is "?l = ?r")
proof -
  have key_l: "map key (List.map_filter (\<lambda>q. find (\<lambda>r. key r = q) rs) qs) = filter (\<lambda>q. q \<in> key ` set rs) qs" for qs
    by (induction qs) (auto simp: map_filter_simps find_key_Some [OF assms(1)] find_None_iff split: option.splits)
  have "set (List.map_filter (\<lambda>q. find (\<lambda>r. key r = q) rs) qs) \<subseteq> set rs" for qs
    by (induction qs) (auto simp: map_filter_simps find_key_Some [OF assms(1)] split: option.splits)
  then have sub: "set ?l \<subseteq> set rs" .
  have "sorted_wrt (<) (map key ?l)" unfolding key_l using assms(2) by (rule sorted_wrt_filter)
  moreover have "sorted_wrt (<) (map key ?r)"
    using assms(1) by (simp add: sorted_wrt_map sorted_wrt_filter)
  moreover have "set (map key ?r) = set (map key ?l)" unfolding key_l by auto
  ultimately have "map key ?r = map key ?l" by (rule strict_sorted_equal)
  then have eq: "map key ?l = map key ?r" by (rule sym)
  have "distinct (map key rs)" using assms(1) by (simp add: strict_sorted_iff)
  then have "inj_on key (set rs)" by (simp add: distinct_map)
  then have "inj_on key (set ?l \<union> set ?r)" by (rule inj_on_subset) (use sub in auto)
  with eq show ?thesis by (rule map_inj_on)
qed

lemma map_filter_map_option:
  "List.map_filter (\<lambda>q. map_option f (g q)) qs = map f (List.map_filter g qs)"
  by (induction qs) (auto simp: map_filter_simps split: option.splits)

subsection \<open>The interface\<close>

text \<open>
  What the clients of a store rely on. The abstract content is a partial map from session and
  sequence number to the frame last saved under it and, per session, the recovery state last
  saved. A range load returns the stored frames of the range in sequence order; a reset
  forgets one session and touches no other.
\<close>

locale outbound_store =
  fixes save_outbound :: "MessageRecordView \<Rightarrow> 'st \<Rightarrow> Status \<times> 'st"
    and load_views :: "u64 \<Rightarrow> u32 \<Rightarrow> u32 \<Rightarrow> 'st \<Rightarrow> MessageRecordViewRange Result"
    and save_recovery :: "SessionRecoveryState \<Rightarrow> 'st \<Rightarrow> Status \<times> 'st"
    and load_recovery :: "u64 \<Rightarrow> 'st \<Rightarrow> SessionRecoveryState Result"
    and reset_session :: "u64 \<Rightarrow> 'st \<Rightarrow> Status \<times> 'st"
    and frames :: "'st \<Rightarrow> u64 \<Rightarrow> u32 \<Rightarrow> MessageRecord option"
    and recovery :: "'st \<Rightarrow> u64 \<Rightarrow> SessionRecoveryState option"
    and invar :: "'st \<Rightarrow> bool"
  assumes frames_seq: "invar st \<Longrightarrow> frames st sid q = Some r \<Longrightarrow> mr_seq_num r = q \<and> mr_session_id r = sid"
    and save_ok: "invar st \<Longrightarrow> mv_session_id v \<noteq> 0 \<Longrightarrow> mv_seq_num v \<noteq> 0 \<Longrightarrow>
      fst (save_outbound v st) = Ok"
    and save_frames: "invar st \<Longrightarrow> mv_session_id v \<noteq> 0 \<Longrightarrow> mv_seq_num v \<noteq> 0 \<Longrightarrow>
      frames (snd (save_outbound v st)) sid q =
        (if sid = mv_session_id v \<and> q = mv_seq_num v then Some (ToOwned v) else frames st sid q)"
    and save_keeps_recovery: "invar st \<Longrightarrow> recovery (snd (save_outbound v st)) = recovery st"
    and save_invar: "invar st \<Longrightarrow> invar (snd (save_outbound v st))"
    and load_frames: "invar st \<Longrightarrow> 0 < b \<Longrightarrow> b \<le> e \<Longrightarrow>
      \<exists>rng. load_views sid b e st = Inr rng \<and>
        range_records rng = map record_view (List.map_filter (frames st sid) (seq_range b e))"
    and save_recovery_ok: "invar st \<Longrightarrow> rs_session_id rs \<noteq> 0 \<Longrightarrow> fst (save_recovery rs st) = Ok"
    and save_recovery_recovery: "invar st \<Longrightarrow> rs_session_id rs \<noteq> 0 \<Longrightarrow>
      recovery (snd (save_recovery rs st)) = (recovery st)(rs_session_id rs \<mapsto> rs)"
    and save_recovery_frames: "invar st \<Longrightarrow> frames (snd (save_recovery rs st)) = frames st"
    and save_recovery_invar: "invar st \<Longrightarrow> invar (snd (save_recovery rs st))"
    and load_recovery: "invar st \<Longrightarrow>
      load_recovery sid st = (case recovery st sid of
        None \<Rightarrow> Inl (NotFound ''recovery state not found'') | Some rs \<Rightarrow> Inr rs)"
    and reset_ok: "invar st \<Longrightarrow> fst (reset_session sid st) = Ok"
    and reset_frames: "invar st \<Longrightarrow> frames (snd (reset_session sid st)) = (frames st)(sid := Map.empty)"
    and reset_recovery: "invar st \<Longrightarrow> recovery (snd (reset_session sid st)) = (recovery st)(sid := None)"
    and reset_invar: "invar st \<Longrightarrow> invar (snd (reset_session sid st))"
begin

lemma load_after_save:
  assumes "invar st" and "mv_session_id v \<noteq> 0" and "mv_seq_num v \<noteq> 0"
  shows "\<exists>rng. load_views (mv_session_id v) (mv_seq_num v) (mv_seq_num v) (snd (save_outbound v st)) = Inr rng \<and>
    range_records rng = [v]"
proof -
  have "0 < mv_seq_num v" using assms(3) by (simp add: word_gt_0)
  then obtain rng where "load_views (mv_session_id v) (mv_seq_num v) (mv_seq_num v) (snd (save_outbound v st)) = Inr rng"
    "range_records rng = map record_view
      (List.map_filter (frames (snd (save_outbound v st)) (mv_session_id v)) (seq_range (mv_seq_num v) (mv_seq_num v)))"
    using load_frames [OF save_invar [OF assms(1)]] by blast
  then show ?thesis using assms by (simp add: seq_range_def save_frames List.map_filter_def)
qed

lemma load_other_session_after_reset:
  assumes "invar st" and "sid' \<noteq> sid" and "0 < b" and "b \<le> e"
  shows "\<exists>rng rng'. load_views sid' b e (snd (reset_session sid st)) = Inr rng \<and>
    load_views sid' b e st = Inr rng' \<and> range_records rng = range_records rng'"
proof -
  have "frames (snd (reset_session sid st)) sid' = frames st sid'"
    using assms by (simp add: reset_frames)
  then show ?thesis
    using load_frames [OF assms(1,3,4), of sid'] load_frames [OF reset_invar [OF assms(1)] assms(3,4), of sid' sid]
    by fastforce
qed

end

end
