(* ===== verification/Memory_Store.thy ===== *)
theory Memory_Store
  imports Session_Store
begin

text \<open>
  \<^verbatim>\<open>store/memory_store\<close>: the in-memory store. Each session has a payload arena, a list of
  outbound index entries sorted by sequence number, a list of inbound entries in arrival
  order and the recovery state last saved. The theory shows that the index and arena
  representation implements the store contract and that compaction loses nothing.
\<close>

section \<open>State\<close>

text \<open>Offsets and sizes are \<^verbatim>\<open>std::size_t\<close>; they index memory that exists and cannot wrap.\<close>

record StoredMessageRecord =
  st_seq_num :: u32
  st_timestamp_ns :: u64
  st_flags :: u16
  st_payload_offset :: nat
  st_payload_size :: nat
  st_body_start_offset :: u32

record SessionData =
  sd_outbound :: "StoredMessageRecord list"
  sd_inbound :: "StoredMessageRecord list"
  sd_payload_arena :: bytes
  sd_recovery :: SessionRecoveryState
  sd_has_recovery :: bool

record MemorySessionStore =
  ms_sessions :: "u64 \<rightharpoonup> SessionData"

definition SessionData_new :: SessionData where
  "SessionData_new =
     \<lparr> sd_outbound = [], sd_inbound = [], sd_payload_arena = [],
       sd_recovery = default_recovery_state, sd_has_recovery = False \<rparr>"

definition MemorySessionStore_new :: MemorySessionStore where
  "MemorySessionStore_new = \<lparr> ms_sessions = Map.empty \<rparr>"

text \<open>\<^verbatim>\<open>sessions_[id]\<close> inserts a default entry when there is none.\<close>

definition session_entry :: "u64 \<Rightarrow> MemorySessionStore \<Rightarrow> SessionData" where
  "session_entry sid st = (case ms_sessions st sid of Some d \<Rightarrow> d | None \<Rightarrow> SessionData_new)"

definition put_session :: "u64 \<Rightarrow> SessionData \<Rightarrow> MemorySessionStore \<Rightarrow> MemorySessionStore" where
  "put_session sid d st = st\<lparr> ms_sessions := (ms_sessions st)(sid \<mapsto> d) \<rparr>"

section \<open>Operations\<close>

definition ValidateRecordView :: "MessageRecordView \<Rightarrow> Status" where
  "ValidateRecordView record =
     (if mv_session_id record = 0 then InvalidArgument ''message record is missing session_id''
      else if mv_seq_num record = 0 then InvalidArgument ''message record is missing seq_num''
      else Ok)"

definition AppendPayload :: "bytes \<Rightarrow> bytes \<Rightarrow> (nat \<times> nat) \<times> bytes" where
  "AppendPayload payload_arena payload =
     ((length payload_arena, length payload), payload_arena @ payload)"

definition MakeStoredRecord :: "bytes \<Rightarrow> MessageRecordView \<Rightarrow> StoredMessageRecord \<times> bytes" where
  "MakeStoredRecord payload_arena record =
     (case AppendPayload payload_arena (mv_payload record) of
        ((payload_offset, payload_size), payload_arena') \<Rightarrow>
          (\<lparr> st_seq_num = mv_seq_num record, st_timestamp_ns = mv_timestamp_ns record,
             st_flags = mv_flags record, st_payload_offset = payload_offset,
             st_payload_size = payload_size, st_body_start_offset = mv_body_start_offset record \<rparr>,
           payload_arena'))"

text \<open>The bytes of the arena an index entry points at.\<close>

definition arena_slice :: "bytes \<Rightarrow> StoredMessageRecord \<Rightarrow> bytes" where
  "arena_slice payload_arena record =
     take (st_payload_size record) (drop (st_payload_offset record) payload_arena)"

definition MaterializeRecord :: "u64 \<Rightarrow> bytes \<Rightarrow> StoredMessageRecord \<Rightarrow> MessageRecord" where
  "MaterializeRecord session_id payload_arena record =
     \<lparr> mr_session_id = session_id, mr_seq_num = st_seq_num record,
       mr_timestamp_ns = st_timestamp_ns record, mr_flags = st_flags record,
       mr_payload = arena_slice payload_arena record,
       mr_body_start_offset = st_body_start_offset record \<rparr>"

definition ViewRecord :: "u64 \<Rightarrow> bytes \<Rightarrow> StoredMessageRecord \<Rightarrow> MessageRecordView" where
  "ViewRecord session_id payload_arena record =
     \<lparr> mv_session_id = session_id, mv_seq_num = st_seq_num record,
       mv_timestamp_ns = st_timestamp_ns record, mv_flags = st_flags record,
       mv_payload = arena_slice payload_arena record,
       mv_body_start_offset = st_body_start_offset record \<rparr>"

text \<open>\<^verbatim>\<open>std::lower_bound\<close>: the first position whose entry is not below the key.\<close>

definition lower_bound_seq :: "StoredMessageRecord list \<Rightarrow> u32 \<Rightarrow> nat" where
  "lower_bound_seq records seq_num = length (takeWhile (\<lambda>existing. st_seq_num existing < seq_num) records)"

definition UpsertBySequence ::
    "StoredMessageRecord list \<Rightarrow> bytes \<Rightarrow> MessageRecordView \<Rightarrow> StoredMessageRecord list \<times> bytes" where
  "UpsertBySequence records payload_arena record =
     (let it = lower_bound_seq records (mv_seq_num record);
          (stored, payload_arena') = MakeStoredRecord payload_arena record
      in if it < length records \<and> st_seq_num (records ! it) = mv_seq_num record
         then (records[it := stored], payload_arena')
         else (take it records @ [stored] @ drop it records, payload_arena'))"

definition Memory_SaveOutboundView ::
    "MessageRecordView \<Rightarrow> MemorySessionStore \<Rightarrow> Status \<times> MemorySessionStore" where
  "Memory_SaveOutboundView record st =
     (let status = ValidateRecordView record in
      if \<not> status_ok status then (status, st)
      else
        let session = session_entry (mv_session_id record) st;
            (outbound, arena) = UpsertBySequence (sd_outbound session) (sd_payload_arena session) record
        in (Ok, put_session (mv_session_id record)
                  (session\<lparr> sd_outbound := outbound, sd_payload_arena := arena \<rparr>) st))"

definition Memory_SaveOutbound :: "MessageRecord \<Rightarrow> MemorySessionStore \<Rightarrow> Status \<times> MemorySessionStore" where
  "Memory_SaveOutbound record st = Memory_SaveOutboundView (record_view record) st"

definition Memory_SaveInboundView ::
    "MessageRecordView \<Rightarrow> MemorySessionStore \<Rightarrow> Status \<times> MemorySessionStore" where
  "Memory_SaveInboundView record st =
     (let status = ValidateRecordView record in
      if \<not> status_ok status then (status, st)
      else
        let session = session_entry (mv_session_id record) st;
            (stored, arena) = MakeStoredRecord (sd_payload_arena session) record
        in (Ok, put_session (mv_session_id record)
                  (session\<lparr> sd_inbound := sd_inbound session @ [stored], sd_payload_arena := arena \<rparr>) st))"

definition Memory_SaveInbound :: "MessageRecord \<Rightarrow> MemorySessionStore \<Rightarrow> Status \<times> MemorySessionStore" where
  "Memory_SaveInbound record st = Memory_SaveInboundView (record_view record) st"

text \<open>The range loop of the outbound loads: skip below the range, stop above it.\<close>

fun outbound_range_loop ::
    "(StoredMessageRecord \<Rightarrow> 'a) \<Rightarrow> u32 \<Rightarrow> u32 \<Rightarrow> StoredMessageRecord list \<Rightarrow> 'a list" where
  "outbound_range_loop f begin_seq end_seq [] = []"
| "outbound_range_loop f begin_seq end_seq (record # records) =
     (if st_seq_num record < begin_seq then outbound_range_loop f begin_seq end_seq records
      else if st_seq_num record > end_seq then []
      else f record # outbound_range_loop f begin_seq end_seq records)"

definition invalid_range :: "u32 \<Rightarrow> u32 \<Rightarrow> bool" where
  "invalid_range begin_seq end_seq \<longleftrightarrow> begin_seq = 0 \<or> end_seq = 0 \<or> begin_seq > end_seq"

definition Memory_LoadOutboundRange ::
    "u64 \<Rightarrow> u32 \<Rightarrow> u32 \<Rightarrow> MemorySessionStore \<Rightarrow> MessageRecord list Result" where
  "Memory_LoadOutboundRange session_id begin_seq end_seq st =
     (if invalid_range begin_seq end_seq then Inl (InvalidArgument ''invalid outbound load range'')
      else case ms_sessions st session_id of
             None \<Rightarrow> Inr []
           | Some d \<Rightarrow> Inr (outbound_range_loop (MaterializeRecord session_id (sd_payload_arena d))
                             begin_seq end_seq (sd_outbound d)))"

definition Memory_LoadOutboundRangeViews ::
    "u64 \<Rightarrow> u32 \<Rightarrow> u32 \<Rightarrow> MemorySessionStore \<Rightarrow> MessageRecordViewRange Result" where
  "Memory_LoadOutboundRangeViews session_id begin_seq end_seq st =
     (if invalid_range begin_seq end_seq then Inl (InvalidArgument ''invalid outbound load range'')
      else case ms_sessions st session_id of
             None \<Rightarrow> Inr empty_range
           | Some d \<Rightarrow> Inr (empty_range\<lparr> range_records :=
               outbound_range_loop (ViewRecord session_id (sd_payload_arena d)) begin_seq end_seq (sd_outbound d) \<rparr>))"

text \<open>The overload that fills a caller's range: on an error the range is left as it was.\<close>

definition Memory_LoadOutboundRangeViews_into ::
    "u64 \<Rightarrow> u32 \<Rightarrow> u32 \<Rightarrow> MemorySessionStore \<Rightarrow> MessageRecordViewRange option \<Rightarrow>
     Status \<times> MessageRecordViewRange option" where
  "Memory_LoadOutboundRangeViews_into session_id begin_seq end_seq st result =
     (case result of
        None \<Rightarrow> (InvalidArgument ''message record view range output is null'', None)
      | Some rng \<Rightarrow>
          if invalid_range begin_seq end_seq
          then (InvalidArgument ''invalid outbound load range'', Some rng)
          else case ms_sessions st session_id of
                 None \<Rightarrow> (Ok, Some empty_range)
               | Some d \<Rightarrow> (Ok, Some (empty_range\<lparr> range_records :=
                   outbound_range_loop (ViewRecord session_id (sd_payload_arena d)) begin_seq end_seq
                     (sd_outbound d) \<rparr>)))"

definition Memory_LoadInboundRange ::
    "u64 \<Rightarrow> u32 \<Rightarrow> u32 \<Rightarrow> MemorySessionStore \<Rightarrow> MessageRecord list Result" where
  "Memory_LoadInboundRange session_id begin_seq end_seq st =
     (if invalid_range begin_seq end_seq then Inl (InvalidArgument ''invalid inbound load range'')
      else case ms_sessions st session_id of
             None \<Rightarrow> Inr []
           | Some d \<Rightarrow>
               Inr (sort_key mr_seq_num
                     (map (MaterializeRecord session_id (sd_payload_arena d))
                       (filter (\<lambda>record. st_seq_num record \<ge> begin_seq \<and> st_seq_num record \<le> end_seq)
                         (sd_inbound d)))))"

text \<open>Reserving capacity only makes sure the session has an entry.\<close>

definition Memory_ReserveAdditionalSessionStorage :: "u64 \<Rightarrow> MemorySessionStore \<Rightarrow> MemorySessionStore" where
  "Memory_ReserveAdditionalSessionStorage session_id st = put_session session_id (session_entry session_id st) st"

definition Memory_SaveRecoveryState ::
    "SessionRecoveryState \<Rightarrow> MemorySessionStore \<Rightarrow> Status \<times> MemorySessionStore" where
  "Memory_SaveRecoveryState state st =
     (if rs_session_id state = 0 then (InvalidArgument ''recovery state is missing session_id'', st)
      else (Ok, put_session (rs_session_id state)
                  ((session_entry (rs_session_id state) st)\<lparr> sd_recovery := state, sd_has_recovery := True \<rparr>) st))"

definition Memory_SaveInboundViewAndRecoveryState ::
    "MessageRecordView \<Rightarrow> SessionRecoveryState \<Rightarrow> MemorySessionStore \<Rightarrow> Status \<times> MemorySessionStore" where
  "Memory_SaveInboundViewAndRecoveryState record state st =
     (let status = ValidateRecordView record in
      if \<not> status_ok status then (status, st)
      else
        let session = session_entry (mv_session_id record) st;
            (stored, arena) = MakeStoredRecord (sd_payload_arena session) record
        in (Ok, put_session (mv_session_id record)
                  (session\<lparr> sd_inbound := sd_inbound session @ [stored], sd_payload_arena := arena,
                            sd_recovery := state, sd_has_recovery := True \<rparr>) st))"

definition Memory_LoadRecoveryState :: "u64 \<Rightarrow> MemorySessionStore \<Rightarrow> SessionRecoveryState Result" where
  "Memory_LoadRecoveryState session_id st =
     (case ms_sessions st session_id of
        None \<Rightarrow> Inl (NotFound ''recovery state not found'')
      | Some d \<Rightarrow> if \<not> sd_has_recovery d then Inl (NotFound ''recovery state not found'')
                  else Inr (sd_recovery d))"

definition Memory_ResetSession :: "u64 \<Rightarrow> MemorySessionStore \<Rightarrow> Status \<times> MemorySessionStore" where
  "Memory_ResetSession session_id st = (Ok, st\<lparr> ms_sessions := (ms_sessions st)(session_id := None) \<rparr>)"

text \<open>\<^verbatim>\<open>compact_records\<close>: copy each payload to the end of the new arena and repoint the entry.\<close>

fun compact_records :: "bytes \<Rightarrow> StoredMessageRecord list \<Rightarrow> bytes \<Rightarrow> StoredMessageRecord list \<times> bytes" where
  "compact_records old_arena [] new_arena = ([], new_arena)"
| "compact_records old_arena (record # records) new_arena =
     (case compact_records old_arena records (new_arena @ arena_slice old_arena record) of
        (records', new_arena') \<Rightarrow> (record\<lparr> st_payload_offset := length new_arena \<rparr> # records', new_arena'))"

definition rollover_session :: "SessionData \<Rightarrow> SessionData" where
  "rollover_session session =
     (let (outbound, arena1) = compact_records (sd_payload_arena session) (sd_outbound session) [];
          (inbound, arena2) = compact_records (sd_payload_arena session) (sd_inbound session) arena1
      in session\<lparr> sd_outbound := outbound, sd_inbound := inbound, sd_payload_arena := arena2 \<rparr>)"

definition Memory_Rollover :: "MemorySessionStore \<Rightarrow> Status \<times> MemorySessionStore" where
  "Memory_Rollover st = (Ok, st\<lparr> ms_sessions := (\<lambda>sid. map_option rollover_session (ms_sessions st sid)) \<rparr>)"

section \<open>Invariant and abstraction\<close>

definition entry_in_arena :: "bytes \<Rightarrow> StoredMessageRecord \<Rightarrow> bool" where
  "entry_in_arena arena r \<longleftrightarrow> st_payload_offset r + st_payload_size r \<le> length arena"

definition session_inv :: "SessionData \<Rightarrow> bool" where
  "session_inv d \<longleftrightarrow>
     sorted_wrt (<) (map st_seq_num (sd_outbound d)) \<and>
     list_all (entry_in_arena (sd_payload_arena d)) (sd_outbound d) \<and>
     list_all (entry_in_arena (sd_payload_arena d)) (sd_inbound d)"

definition memory_inv :: "MemorySessionStore \<Rightarrow> bool" where
  "memory_inv st \<longleftrightarrow> (\<forall>sid d. ms_sessions st sid = Some d \<longrightarrow> session_inv d)"

definition session_frames :: "u64 \<Rightarrow> SessionData \<Rightarrow> u32 \<Rightarrow> MessageRecord option" where
  "session_frames sid d q =
     map_option (MaterializeRecord sid (sd_payload_arena d)) (find (\<lambda>r. st_seq_num r = q) (sd_outbound d))"

definition memory_frames :: "MemorySessionStore \<Rightarrow> u64 \<Rightarrow> u32 \<Rightarrow> MessageRecord option" where
  "memory_frames st sid q = (case ms_sessions st sid of None \<Rightarrow> None | Some d \<Rightarrow> session_frames sid d q)"

definition memory_recovery :: "MemorySessionStore \<Rightarrow> u64 \<Rightarrow> SessionRecoveryState option" where
  "memory_recovery st sid =
     (case ms_sessions st sid of None \<Rightarrow> None | Some d \<Rightarrow> if sd_has_recovery d then Some (sd_recovery d) else None)"

text \<open>Everything a session has received, in arrival order.\<close>

definition memory_inbound :: "MemorySessionStore \<Rightarrow> u64 \<Rightarrow> MessageRecord list" where
  "memory_inbound st sid =
     (case ms_sessions st sid of
        None \<Rightarrow> [] | Some d \<Rightarrow> map (MaterializeRecord sid (sd_payload_arena d)) (sd_inbound d))"

section \<open>Upsert\<close>

fun upsert_list :: "u32 \<Rightarrow> StoredMessageRecord \<Rightarrow> StoredMessageRecord list \<Rightarrow> StoredMessageRecord list" where
  "upsert_list q x [] = [x]"
| "upsert_list q x (r # rs) =
     (if st_seq_num r < q then r # upsert_list q x rs
      else if st_seq_num r = q then x # rs
      else x # r # rs)"

lemma UpsertBySequence_eq:
  "UpsertBySequence records arena record =
     (upsert_list (mv_seq_num record) (fst (MakeStoredRecord arena record)) records,
      snd (MakeStoredRecord arena record))"
proof -
  have "(let it = lower_bound_seq records q in
         if it < length records \<and> st_seq_num (records ! it) = q then records[it := x]
         else take it records @ [x] @ drop it records) = upsert_list q x records" for q x
    by (induction records) (auto simp: lower_bound_seq_def Let_def)
  note this [of "mv_seq_num record" "fst (MakeStoredRecord arena record)"]
  then show ?thesis
    by (auto simp: UpsertBySequence_def Let_def split_def split: if_splits)
qed

lemma set_upsert_list: "set (upsert_list q x rs) \<subseteq> insert x (set rs)"
  by (induction rs) auto

lemma sorted_upsert_list:
  assumes "sorted_wrt (<) (map st_seq_num rs)" and "st_seq_num x = q"
  shows "sorted_wrt (<) (map st_seq_num (upsert_list q x rs))"
  using assms
proof (induction rs)
  case (Cons r rs)
  have "st_seq_num r < q \<Longrightarrow> \<forall>y\<in>set (upsert_list q x rs). st_seq_num r < st_seq_num y"
    using Cons.prems set_upsert_list [of q x rs] by auto
  then show ?case using Cons by (fastforce simp: not_less)
qed simp

lemma find_upsert_list:
  assumes "sorted_wrt (<) (map st_seq_num rs)" and "st_seq_num x = q"
  shows "find (\<lambda>r. st_seq_num r = q') (upsert_list q x rs) =
    (if q' = q then Some x else find (\<lambda>r. st_seq_num r = q') rs)"
  using assms by (induction rs) auto

section \<open>Arena\<close>

lemma MakeStoredRecord_simps [simp]:
  "st_seq_num (fst (MakeStoredRecord arena v)) = mv_seq_num v"
  "snd (MakeStoredRecord arena v) = arena @ mv_payload v"
  by (simp_all add: MakeStoredRecord_def AppendPayload_def)

lemma entry_in_arena_append: "entry_in_arena arena r \<Longrightarrow> entry_in_arena (arena @ p) r"
  by (simp add: entry_in_arena_def)

lemma arena_slice_append: "entry_in_arena arena r \<Longrightarrow> arena_slice (arena @ p) r = arena_slice arena r"
  by (simp add: arena_slice_def entry_in_arena_def)

lemma MaterializeRecord_append:
  "entry_in_arena arena r \<Longrightarrow> MaterializeRecord sid (arena @ p) r = MaterializeRecord sid arena r"
  by (simp add: MaterializeRecord_def arena_slice_append)

lemma entry_in_arena_stored: "entry_in_arena (arena @ mv_payload v) (fst (MakeStoredRecord arena v))"
  by (simp add: MakeStoredRecord_def AppendPayload_def entry_in_arena_def)

lemma MaterializeRecord_stored:
  "MaterializeRecord (mv_session_id v) (arena @ mv_payload v) (fst (MakeStoredRecord arena v)) = ToOwned v"
  by (simp add: MakeStoredRecord_def AppendPayload_def MaterializeRecord_def arena_slice_def ToOwned_def)

lemma record_view_Materialize: "ViewRecord sid arena = record_view \<circ> MaterializeRecord sid arena"
  by (simp add: fun_eq_iff ViewRecord_def MaterializeRecord_def record_view_def)

section \<open>Invariant\<close>

lemma session_inv_new: "session_inv SessionData_new"
  by (simp add: session_inv_def SessionData_new_def)

lemma session_inv_entry: "memory_inv st \<Longrightarrow> session_inv (session_entry sid st)"
  by (auto simp: memory_inv_def session_entry_def session_inv_new split: option.splits)

lemma memory_inv_put: "memory_inv st \<Longrightarrow> session_inv d \<Longrightarrow> memory_inv (put_session sid d st)"
  by (simp add: memory_inv_def put_session_def)

lemma memory_inv_new: "memory_inv MemorySessionStore_new"
  by (simp add: memory_inv_def MemorySessionStore_new_def)

lemma session_inv_outbound:
  assumes "session_inv d"
  shows "session_inv (d\<lparr> sd_outbound := fst (UpsertBySequence (sd_outbound d) (sd_payload_arena d) v),
    sd_payload_arena := snd (UpsertBySequence (sd_outbound d) (sd_payload_arena d) v) \<rparr>)"
  using assms set_upsert_list [of "mv_seq_num v" "fst (MakeStoredRecord (sd_payload_arena d) v)" "sd_outbound d"]
  by (auto simp: session_inv_def UpsertBySequence_eq sorted_upsert_list list_all_iff
      intro: entry_in_arena_append entry_in_arena_stored)

lemma session_inv_inbound:
  "session_inv d \<Longrightarrow> session_inv (d\<lparr> sd_inbound := sd_inbound d @ [fst (MakeStoredRecord (sd_payload_arena d) v)],
     sd_payload_arena := snd (MakeStoredRecord (sd_payload_arena d) v) \<rparr>)"
  by (auto simp: session_inv_def list_all_iff intro: entry_in_arena_append entry_in_arena_stored)

lemma session_inv_recovery [simp]:
  "session_inv (d\<lparr> sd_recovery := r, sd_has_recovery := b \<rparr>) = session_inv d"
  by (simp add: session_inv_def)

lemma Memory_SaveOutboundView_eq:
  "Memory_SaveOutboundView v st =
     (if status_ok (ValidateRecordView v)
      then (Ok, put_session (mv_session_id v)
             (let d = session_entry (mv_session_id v) st in
              d\<lparr> sd_outbound := fst (UpsertBySequence (sd_outbound d) (sd_payload_arena d) v),
                 sd_payload_arena := snd (UpsertBySequence (sd_outbound d) (sd_payload_arena d) v) \<rparr>) st)
      else (ValidateRecordView v, st))"
  by (simp add: Memory_SaveOutboundView_def Let_def split_def)

lemma Memory_SaveInboundView_eq:
  "Memory_SaveInboundView v st =
     (if status_ok (ValidateRecordView v)
      then (Ok, put_session (mv_session_id v)
             (let d = session_entry (mv_session_id v) st in
              d\<lparr> sd_inbound := sd_inbound d @ [fst (MakeStoredRecord (sd_payload_arena d) v)],
                 sd_payload_arena := snd (MakeStoredRecord (sd_payload_arena d) v) \<rparr>) st)
      else (ValidateRecordView v, st))"
  by (simp add: Memory_SaveInboundView_def Let_def split_def)

lemma ValidateRecordView_ok: "ValidateRecordView v = Ok \<longleftrightarrow> mv_session_id v \<noteq> 0 \<and> mv_seq_num v \<noteq> 0"
  by (simp add: ValidateRecordView_def)

lemma Memory_save_inv:
  assumes "memory_inv st"
  shows "memory_inv (snd (Memory_SaveOutboundView v st))"
    and "memory_inv (snd (Memory_SaveInboundView v st))"
    and "memory_inv (snd (Memory_SaveRecoveryState rs st))"
    and "memory_inv (snd (Memory_SaveInboundViewAndRecoveryState v rs st))"
    and "memory_inv (snd (Memory_ResetSession sid st))"
proof -
  note e = session_inv_entry [OF assms]
  show "memory_inv (snd (Memory_SaveOutboundView v st))"
    using assms e by (simp add: Memory_SaveOutboundView_eq Let_def memory_inv_put session_inv_outbound)
  show "memory_inv (snd (Memory_SaveInboundView v st))"
    using assms session_inv_inbound [OF e] by (simp add: Memory_SaveInboundView_eq Let_def memory_inv_put)
  show "memory_inv (snd (Memory_SaveRecoveryState rs st))"
    using assms e by (simp add: Memory_SaveRecoveryState_def memory_inv_put)
  show "memory_inv (snd (Memory_SaveInboundViewAndRecoveryState v rs st))"
    using assms session_inv_inbound [OF e, unfolded session_inv_def]
    by (auto simp: Memory_SaveInboundViewAndRecoveryState_def Let_def split_def session_inv_def
        intro!: memory_inv_put)
  show "memory_inv (snd (Memory_ResetSession sid st))"
    using assms by (simp add: Memory_ResetSession_def memory_inv_def)
qed

section \<open>Range loads\<close>

lemma outbound_range_loop_filter:
  assumes "sorted_wrt (<) (map st_seq_num rs)"
  shows "outbound_range_loop f b e rs = map f (filter (\<lambda>r. b \<le> st_seq_num r \<and> st_seq_num r \<le> e) rs)"
  using assms
proof (induction rs)
  case (Cons r rs)
  have "e < st_seq_num r \<Longrightarrow> filter (\<lambda>r. b \<le> st_seq_num r \<and> st_seq_num r \<le> e) rs = []"
    using Cons.prems by (auto simp: filter_empty_conv)
  then show ?case using Cons by (auto simp: not_less)
qed simp

lemma session_frames_range:
  assumes "session_inv d"
  shows "List.map_filter (session_frames sid d) (seq_range b e) =
    outbound_range_loop (MaterializeRecord sid (sd_payload_arena d)) b e (sd_outbound d)"
proof -
  have so: "sorted_wrt (<) (map st_seq_num (sd_outbound d))" using assms by (simp add: session_inv_def)
  have "session_frames sid d =
      (\<lambda>q. map_option (MaterializeRecord sid (sd_payload_arena d)) (find (\<lambda>r. st_seq_num r = q) (sd_outbound d)))"
    by (simp add: fun_eq_iff session_frames_def)
  then have "List.map_filter (session_frames sid d) (seq_range b e) =
      map (MaterializeRecord sid (sd_payload_arena d))
        (List.map_filter (\<lambda>q. find (\<lambda>r. st_seq_num r = q) (sd_outbound d)) (seq_range b e))"
    by (simp only: map_filter_map_option)
  then show ?thesis
    by (simp add: map_filter_find [OF so sorted_seq_range] set_seq_range outbound_range_loop_filter [OF so])
qed

lemma outbound_range_loop_comp: "outbound_range_loop (g \<circ> f) b e rs = map g (outbound_range_loop f b e rs)"
  by (induction rs) auto

section \<open>The contract holds\<close>

lemma session_frames_upsert:
  assumes "session_inv d"
  shows "session_frames sid (d\<lparr> sd_outbound := fst (UpsertBySequence (sd_outbound d) (sd_payload_arena d) v),
      sd_payload_arena := snd (UpsertBySequence (sd_outbound d) (sd_payload_arena d) v) \<rparr>) q =
    (if q = mv_seq_num v then Some (ToOwned v\<lparr> mr_session_id := sid \<rparr>) else session_frames sid d q)"
proof -
  have so: "sorted_wrt (<) (map st_seq_num (sd_outbound d))" using assms by (simp add: session_inv_def)
  have arena: "r \<in> set (sd_outbound d) \<Longrightarrow> entry_in_arena (sd_payload_arena d) r" for r
    using assms by (simp add: session_inv_def list_all_iff)
  have "MaterializeRecord sid (sd_payload_arena d @ mv_payload v) (fst (MakeStoredRecord (sd_payload_arena d) v)) =
      ToOwned v\<lparr> mr_session_id := sid \<rparr>"
    by (simp add: MakeStoredRecord_def AppendPayload_def MaterializeRecord_def arena_slice_def ToOwned_def)
  moreover have "map_option (MaterializeRecord sid (sd_payload_arena d @ mv_payload v))
        (find (\<lambda>r. st_seq_num r = q) (sd_outbound d)) =
      map_option (MaterializeRecord sid (sd_payload_arena d)) (find (\<lambda>r. st_seq_num r = q) (sd_outbound d))"
    by (intro option.map_cong refl) (simp add: find_key_Some [OF so] MaterializeRecord_append arena)
  ultimately show ?thesis
    by (simp add: session_frames_def UpsertBySequence_eq find_upsert_list [OF so])
qed

lemma session_frames_new: "session_frames sid SessionData_new q = None"
  by (simp add: session_frames_def SessionData_new_def)

lemma memory_frames_entry: "memory_frames st sid q = session_frames sid (session_entry sid st) q"
  by (simp add: memory_frames_def session_entry_def session_frames_new split: option.splits)

lemma session_entry_put: "session_entry sid' (put_session sid d st) = (if sid' = sid then d else session_entry sid' st)"
  by (simp add: session_entry_def put_session_def)

lemma memory_recovery_entry:
  "memory_recovery st sid =
    (if sd_has_recovery (session_entry sid st) then Some (sd_recovery (session_entry sid st)) else None)"
  by (simp add: memory_recovery_def session_entry_def SessionData_new_def split: option.splits)

lemma Memory_SaveOutboundView_frames:
  assumes "memory_inv st" and "mv_session_id v \<noteq> 0" and "mv_seq_num v \<noteq> 0"
  shows "memory_frames (snd (Memory_SaveOutboundView v st)) sid q =
    (if sid = mv_session_id v \<and> q = mv_seq_num v then Some (ToOwned v) else memory_frames st sid q)"
  using assms session_frames_upsert [OF session_inv_entry [OF assms(1)]]
  by (simp add: memory_frames_entry Memory_SaveOutboundView_eq Let_def ValidateRecordView_ok session_entry_put
      ToOwned_def)

lemma Memory_LoadOutboundRangeViews_frames:
  assumes "memory_inv st" and "0 < b" and "b \<le> e"
  shows "\<exists>rng. Memory_LoadOutboundRangeViews sid b e st = Inr rng \<and>
    range_records rng = map record_view (List.map_filter (memory_frames st sid) (seq_range b e))"
proof -
  have ok: "\<not> invalid_range b e" using assms(2,3) by (auto simp: invalid_range_def)
  show ?thesis
  proof (cases "ms_sessions st sid")
    case None
    then have "memory_frames st sid = (\<lambda>_. None)" by (simp add: memory_frames_def fun_eq_iff)
    then have "List.map_filter (memory_frames st sid) (seq_range b e) = []" by (simp add: List.map_filter_def)
    then show ?thesis using None ok by (simp add: Memory_LoadOutboundRangeViews_def empty_range_def)
  next
    case (Some d)
    then have "session_inv d" "memory_frames st sid = session_frames sid d"
      using assms(1) by (auto simp: memory_inv_def memory_frames_def)
    then show ?thesis
      using Some ok
      by (simp add: Memory_LoadOutboundRangeViews_def session_frames_range record_view_Materialize
          outbound_range_loop_comp)
  qed
qed

interpretation memory_store: outbound_store Memory_SaveOutboundView Memory_LoadOutboundRangeViews
  Memory_SaveRecoveryState Memory_LoadRecoveryState Memory_ResetSession memory_frames memory_recovery memory_inv
proof (unfold_locales, goal_cases)
  case (1 st sid q r)
  then have "sorted_wrt (<) (map st_seq_num (sd_outbound (session_entry sid st)))"
    using session_inv_entry by (simp add: session_inv_def)
  then show ?case using 1 by (auto simp: memory_frames_entry session_frames_def find_key_Some MaterializeRecord_def)
next
  case (2 st v)
  then show ?case by (simp add: Memory_SaveOutboundView_eq ValidateRecordView_ok)
next
  case (3 st v sid q)
  then show ?case by (rule Memory_SaveOutboundView_frames)
next
  case (4 st v)
  then show ?case by (simp add: fun_eq_iff memory_recovery_entry Memory_SaveOutboundView_eq Let_def session_entry_put)
next
  case (5 st v)
  then show ?case by (rule Memory_save_inv)
next
  case (6 st b e sid)
  then show ?case by (rule Memory_LoadOutboundRangeViews_frames)
next
  case (7 st rs)
  then show ?case by (simp add: Memory_SaveRecoveryState_def)
next
  case (8 st rs)
  then show ?case by (simp add: fun_eq_iff memory_recovery_entry Memory_SaveRecoveryState_def session_entry_put)
next
  case (9 st rs)
  then show ?case
    by (simp add: fun_eq_iff memory_frames_entry Memory_SaveRecoveryState_def session_entry_put session_frames_def)
next
  case (10 st rs)
  then show ?case by (rule Memory_save_inv)
next
  case (11 st sid)
  then show ?case by (simp add: Memory_LoadRecoveryState_def memory_recovery_def split: option.splits)
next
  case (12 st sid)
  then show ?case by (simp add: Memory_ResetSession_def)
next
  case (13 st sid)
  then show ?case by (simp add: fun_eq_iff Memory_ResetSession_def memory_frames_def)
next
  case (14 st sid)
  then show ?case by (simp add: fun_eq_iff Memory_ResetSession_def memory_recovery_def)
next
  case (15 st sid)
  then show ?case by (rule Memory_save_inv)
qed

section \<open>Compaction\<close>

lemma compact_records_snd:
  "snd (compact_records old rs new) = new @ concat (map (arena_slice old) rs)"
  by (induction old rs new rule: compact_records.induct) (simp_all add: split_def)

lemma length_arena_slice: "entry_in_arena old r \<Longrightarrow> length (arena_slice old r) = st_payload_size r"
  by (simp add: arena_slice_def entry_in_arena_def)

lemma relocated_entry:
  assumes "entry_in_arena old r"
  shows "arena_slice (new @ arena_slice old r @ rest) (r\<lparr> st_payload_offset := length new \<rparr>) = arena_slice old r"
    and "entry_in_arena (new @ arena_slice old r @ rest) (r\<lparr> st_payload_offset := length new \<rparr>)"
  using length_arena_slice [OF assms] by (simp_all add: arena_slice_def [of "_ @ _"] entry_in_arena_def)

lemma compact_records_fst:
  assumes "list_all (entry_in_arena old) rs"
  shows "map (MaterializeRecord sid (snd (compact_records old rs new) @ p)) (fst (compact_records old rs new)) =
      map (MaterializeRecord sid old) rs"
    and "list_all (entry_in_arena (snd (compact_records old rs new) @ p)) (fst (compact_records old rs new))"
    and "map st_seq_num (fst (compact_records old rs new)) = map st_seq_num rs"
  using assms
  by (induction old rs new rule: compact_records.induct)
    (simp_all add: split_def MaterializeRecord_def compact_records_snd relocated_entry)

lemma find_map_key:
  "map_option f (find (\<lambda>r. key r = q) rs) = find (\<lambda>x. key' x = q) (map f rs)"
  if "\<And>r. key' (f r) = key r"
  using that by (induction rs) auto

lemma session_frames_materialized:
  "session_frames sid d q = find (\<lambda>r. mr_seq_num r = q) (map (MaterializeRecord sid (sd_payload_arena d)) (sd_outbound d))"
  unfolding session_frames_def by (rule find_map_key) (simp add: MaterializeRecord_def)

lemma rollover_session_outbound:
  assumes "session_inv d"
  shows "map (MaterializeRecord sid (sd_payload_arena (rollover_session d))) (sd_outbound (rollover_session d)) =
      map (MaterializeRecord sid (sd_payload_arena d)) (sd_outbound d)"
    and "map (MaterializeRecord sid (sd_payload_arena (rollover_session d))) (sd_inbound (rollover_session d)) =
      map (MaterializeRecord sid (sd_payload_arena d)) (sd_inbound d)"
    and "session_inv (rollover_session d)"
    and "sd_payload_arena (rollover_session d) =
      concat (map (arena_slice (sd_payload_arena d)) (sd_outbound d @ sd_inbound d))"
proof -
  let ?a = "sd_payload_arena d"
  define o1 where "o1 = compact_records ?a (sd_outbound d) []"
  define i1 where "i1 = compact_records ?a (sd_inbound d) (snd o1)"
  have r: "rollover_session d = d\<lparr> sd_outbound := fst o1, sd_inbound := fst i1, sd_payload_arena := snd i1 \<rparr>"
    by (simp add: rollover_session_def o1_def i1_def split_def Let_def)
  have so: "list_all (entry_in_arena ?a) (sd_outbound d)" and si: "list_all (entry_in_arena ?a) (sd_inbound d)"
    using assms by (simp_all add: session_inv_def)
  have ext: "snd i1 = snd o1 @ concat (map (arena_slice ?a) (sd_inbound d))"
    by (simp add: i1_def compact_records_snd)
  show "map (MaterializeRecord sid (sd_payload_arena (rollover_session d))) (sd_outbound (rollover_session d)) =
      map (MaterializeRecord sid ?a) (sd_outbound d)"
    using compact_records_fst(1) [OF so, of sid "[]"] by (simp add: r ext flip: o1_def)
  show "map (MaterializeRecord sid (sd_payload_arena (rollover_session d))) (sd_inbound (rollover_session d)) =
      map (MaterializeRecord sid ?a) (sd_inbound d)"
    using compact_records_fst(1) [OF si, of sid "snd o1" "[]"] by (simp add: r flip: i1_def)
  show "session_inv (rollover_session d)"
    using assms compact_records_fst(2,3) [OF so, of "[]"] compact_records_fst(2) [OF si, of "snd o1" "[]"]
    by (simp add: session_inv_def r ext flip: o1_def i1_def)
  show "sd_payload_arena (rollover_session d) =
      concat (map (arena_slice ?a) (sd_outbound d @ sd_inbound d))"
    by (simp add: r i1_def o1_def compact_records_snd)
qed


lemma Memory_Rollover_inv: "memory_inv st \<Longrightarrow> memory_inv (snd (Memory_Rollover st))"
  by (auto simp: memory_inv_def Memory_Rollover_def rollover_session_outbound(3))

lemma Memory_Rollover_frames: "memory_inv st \<Longrightarrow> memory_frames (snd (Memory_Rollover st)) = memory_frames st"
  by (auto simp: fun_eq_iff memory_frames_def Memory_Rollover_def memory_inv_def session_frames_materialized
      rollover_session_outbound(1) split: option.splits)

lemma Memory_Rollover_inbound: "memory_inv st \<Longrightarrow> memory_inbound (snd (Memory_Rollover st)) = memory_inbound st"
  by (auto simp: fun_eq_iff memory_inbound_def Memory_Rollover_def memory_inv_def
      rollover_session_outbound(2) split: option.splits)

lemma Memory_Rollover_recovery: "memory_recovery (snd (Memory_Rollover st)) = memory_recovery st"
  by (auto simp: fun_eq_iff memory_recovery_def Memory_Rollover_def rollover_session_def Let_def split_def
      split: option.splits)

section \<open>Properties of the memory store\<close>

fun Memory_SaveOutbound_all :: "MessageRecordView list \<Rightarrow> MemorySessionStore \<Rightarrow> MemorySessionStore" where
  "Memory_SaveOutbound_all [] st = st"
| "Memory_SaveOutbound_all (v # vs) st = Memory_SaveOutbound_all vs (snd (Memory_SaveOutboundView v st))"

definition storable :: "MessageRecordView \<Rightarrow> bool" where
  "storable v \<longleftrightarrow> mv_session_id v \<noteq> 0 \<and> mv_seq_num v \<noteq> 0"

text \<open>The frame a history of saves leaves under a sequence number: the last one written.\<close>

definition last_saved :: "MessageRecordView list \<Rightarrow> u64 \<Rightarrow> u32 \<Rightarrow> MessageRecordView option" where
  "last_saved vs sid q = find (\<lambda>v. mv_session_id v = sid \<and> mv_seq_num v = q) (rev vs)"

lemma Memory_SaveOutbound_all_snoc:
  "Memory_SaveOutbound_all (vs @ [v]) st = snd (Memory_SaveOutboundView v (Memory_SaveOutbound_all vs st))"
  by (induction vs arbitrary: st) auto

lemma Memory_SaveOutbound_all_frames:
  assumes "list_all storable vs"
  shows "memory_inv (Memory_SaveOutbound_all vs MemorySessionStore_new) \<and>
    memory_frames (Memory_SaveOutbound_all vs MemorySessionStore_new) sid q =
      map_option ToOwned (last_saved vs sid q)"
  using assms
proof (induction vs rule: rev_induct)
  case Nil
  then show ?case
    by (simp add: memory_inv_def last_saved_def memory_frames_def MemorySessionStore_new_def)
next
  case (snoc v vs)
  then show ?case
    by (auto simp: Memory_SaveOutbound_all_snoc last_saved_def storable_def
        memory_store.save_frames memory_store.save_invar)
qed

text \<open>C8: the outbound log. After any history of saves, loading a range returns for each
  sequence number of the range the frame written last under it, in sequence order and with
  its payload, whatever the order the frames were written in.\<close>

theorem memory_store_replays_last_written:
  assumes "list_all storable vs" and "0 < b" and "b \<le> e"
  shows "\<exists>rng. Memory_LoadOutboundRangeViews sid b e (Memory_SaveOutbound_all vs MemorySessionStore_new) = Inr rng \<and>
    range_records rng = List.map_filter (last_saved vs sid) (seq_range b e)"
proof -
  let ?st = "Memory_SaveOutbound_all vs MemorySessionStore_new"
  have inv: "memory_inv ?st" and fr: "memory_frames ?st sid = (\<lambda>q. map_option ToOwned (last_saved vs sid q))"
    using Memory_SaveOutbound_all_frames [OF assms(1)] by auto
  have id: "record_view \<circ> ToOwned = id" by (simp add: fun_eq_iff)
  show ?thesis
    using memory_store.load_frames [OF inv assms(2,3), of sid]
    unfolding fr map_filter_map_option map_map id by simp
qed

definition sample_view :: "u32 \<Rightarrow> bytes \<Rightarrow> MessageRecordView" where
  "sample_view q p = \<lparr> mv_session_id = 7, mv_seq_num = q, mv_timestamp_ns = 0, mv_flags = 0,
     mv_payload = p, mv_body_start_offset = 0 \<rparr>"

theorem memory_store_replays_last_written_witness:
  "\<exists>rng. Memory_LoadOutboundRangeViews 7 1 3
      (Memory_SaveOutbound_all [sample_view 2 [50], sample_view 1 [49], sample_view 2 [51]] MemorySessionStore_new) = Inr rng \<and>
    range_records rng = [sample_view 1 [49], sample_view 2 [51]]"
proof -
  have "seq_range 1 3 = [1, 2, 3]" by (simp add: seq_range_def upt_rec)
  then have "List.map_filter (last_saved [sample_view 2 [50], sample_view 1 [49], sample_view 2 [51]] 7) (seq_range 1 3) =
      [sample_view 1 [49], sample_view 2 [51]]"
    by (simp add: last_saved_def sample_view_def List.map_filter_def)
  then show ?thesis
    using memory_store_replays_last_written [of "[sample_view 2 [50], sample_view 1 [49], sample_view 2 [51]]" 1 3 7]
    by (simp add: storable_def sample_view_def)
qed

text \<open>C9: compaction. Rolling the store over changes nothing a client can read (outbound frames,
  inbound frames, recovery states), keeps the invariant, and leaves each session an arena that
  holds exactly the payloads still referenced.\<close>

theorem memory_rollover_preserves_contents:
  assumes "memory_inv st"
  shows "memory_inv (snd (Memory_Rollover st)) \<and>
    memory_frames (snd (Memory_Rollover st)) = memory_frames st \<and>
    memory_inbound (snd (Memory_Rollover st)) = memory_inbound st \<and>
    memory_recovery (snd (Memory_Rollover st)) = memory_recovery st \<and>
    (\<forall>sid d. ms_sessions st sid = Some d \<longrightarrow>
       (\<exists>d'. ms_sessions (snd (Memory_Rollover st)) sid = Some d' \<and>
         length (sd_payload_arena d') = sum_list (map st_payload_size (sd_outbound d @ sd_inbound d))))"
proof -
  have "length (sd_payload_arena (rollover_session d)) = sum_list (map st_payload_size (sd_outbound d @ sd_inbound d))"
    if "session_inv d" for d
  proof -
    have "map (length \<circ> arena_slice (sd_payload_arena d)) (sd_outbound d @ sd_inbound d) =
        map st_payload_size (sd_outbound d @ sd_inbound d)"
      using that by (intro map_cong refl) (auto simp: session_inv_def list_all_iff length_arena_slice)
    then show ?thesis
      using rollover_session_outbound(4) [OF that] by (simp only: length_concat map_map)
  qed
  then show ?thesis
    using assms Memory_Rollover_inv Memory_Rollover_frames Memory_Rollover_inbound Memory_Rollover_recovery
    by (auto simp: Memory_Rollover_def memory_inv_def)
qed

theorem memory_rollover_preserves_contents_witness:
  "memory_frames (snd (Memory_Rollover (Memory_SaveOutbound_all [sample_view 1 [49], sample_view 1 [50]]
      MemorySessionStore_new))) =
   memory_frames (Memory_SaveOutbound_all [sample_view 1 [49], sample_view 1 [50]] MemorySessionStore_new)"
proof -
  have "memory_inv (Memory_SaveOutbound_all [sample_view 1 [49], sample_view 1 [50]] MemorySessionStore_new)"
    by (simp add: memory_inv_new memory_store.save_invar)
  then show ?thesis by (simp only: memory_rollover_preserves_contents)
qed



end
