(* ===== verification/Resend_Recovery.thy ===== *)
theory Resend_Recovery
  imports Session_Core Memory_Store
begin

text \<open>
  \<^verbatim>\<open>session/resend_recovery\<close>: the plan that answers a resend request from the outbound store,
  and the recovery of a session's sequence state at start-up. The store is reached through its
  virtual methods only, so the operations take those methods as parameters; their properties
  are proved once from the store contract and hold for every store that interprets it.
\<close>

section \<open>Replay plan\<close>

datatype RecoveryMode = kMemoryOnly | kWarmRestart | kColdStart | kNoRecovery

text \<open>\<open>kGapFillAction\<close> is \<^verbatim>\<open>ReplayActionKind::kGapFill\<close>; the bare name is a record flag.\<close>

datatype ReplayActionKind = kReplay | kGapFillAction

record ReplayChunk =
  rc_kind :: ReplayActionKind
  rc_begin_seq :: u32
  rc_end_seq :: u32
  rc_messages :: "MessageRecord list"

record ReplayPlan =
  rp_session_id :: u64
  rp_request_begin_seq :: u32
  rp_request_end_seq :: u32
  rp_chunks :: "ReplayChunk list"

definition empty_chunk :: ReplayChunk where
  "empty_chunk = \<lparr> rc_kind = kGapFillAction, rc_begin_seq = 0, rc_end_seq = 0, rc_messages = [] \<rparr>"

definition FlushChunk :: "ReplayChunk list \<Rightarrow> ReplayChunk \<Rightarrow> ReplayChunk list \<times> ReplayChunk" where
  "FlushChunk chunks chunk =
     (if rc_begin_seq chunk = 0 \<or> rc_end_seq chunk = 0 then (chunks, chunk)
      else (chunks @ [chunk], empty_chunk))"

type_synonym replay_state = "ReplayChunk list \<times> ReplayChunk \<times> nat"

text \<open>The record the loop pairs with a number: the next loaded one, if it has that number.\<close>

definition record_at :: "MessageRecordView list \<Rightarrow> nat \<Rightarrow> u32 \<Rightarrow> MessageRecordView option" where
  "record_at records record_index seq_num =
     (if record_index < length records \<and> mv_seq_num (records ! record_index) = seq_num
      then Some (records ! record_index) else None)"

text \<open>The body of the loop over the requested sequence numbers.\<close>

definition replay_step :: "MessageRecordView list \<Rightarrow> u32 \<Rightarrow> replay_state \<Rightarrow> replay_state" where
  "replay_step records seq_num = (\<lambda>(chunks, current, record_index).
     let record = record_at records record_index seq_num;
         should_gap_fill = (case record of None \<Rightarrow> True | Some r \<Rightarrow> view_is_admin r \<or> view_is_gap_fill r);
         next_kind = (if should_gap_fill then kGapFillAction else kReplay);
         (chunks, current) =
           (if rc_begin_seq current = 0
            then (chunks, current\<lparr> rc_kind := next_kind, rc_begin_seq := seq_num, rc_end_seq := seq_num \<rparr>)
            else if rc_kind current \<noteq> next_kind
            then (let (chunks', current') = FlushChunk chunks current in
                  (chunks', current'\<lparr> rc_kind := next_kind, rc_begin_seq := seq_num, rc_end_seq := seq_num \<rparr>))
            else (chunks, current\<lparr> rc_end_seq := seq_num \<rparr>));
         current =
           (case record of
              Some r \<Rightarrow> if \<not> should_gap_fill then current\<lparr> rc_messages := rc_messages current @ [ToOwned r] \<rparr> else current
            | None \<Rightarrow> current)
     in (chunks, current, if record \<noteq> None then Suc record_index else record_index))"

text \<open>The 32-bit loop counter wraps, so the loop need not end: no result is \<open>None\<close>.\<close>

partial_function (option) replay_loop ::
    "MessageRecordView list \<Rightarrow> u32 \<Rightarrow> u32 \<Rightarrow> replay_state \<Rightarrow> replay_state option" where
  "replay_loop records effective_end_seq seq_num state =
     (if seq_num \<le> effective_end_seq
      then replay_loop records effective_end_seq (seq_num + 1) (replay_step records seq_num state)
      else Some state)"

definition build_plan ::
    "(u64 \<Rightarrow> u32 \<Rightarrow> u32 \<Rightarrow> 'st \<Rightarrow> MessageRecordViewRange Result) \<Rightarrow> 'st \<Rightarrow> u64 \<Rightarrow> u32 \<Rightarrow> u32 \<Rightarrow>
     ReplayPlan Result option" where
  "build_plan load_views store session_id begin_seq effective_end_seq =
     (if begin_seq > effective_end_seq then Some (Inl (InvalidArgument ''invalid replay range''))
      else case load_views session_id begin_seq effective_end_seq store of
             Inl e \<Rightarrow> Some (Inl e)
           | Inr loaded \<Rightarrow>
               map_option (\<lambda>(chunks, current, _).
                   Inr \<lparr> rp_session_id = session_id, rp_request_begin_seq = begin_seq,
                         rp_request_end_seq = effective_end_seq, rp_chunks = fst (FlushChunk chunks current) \<rparr>)
                 (replay_loop (range_records loaded) effective_end_seq begin_seq ([], empty_chunk, 0)))"

definition BuildReplayPlan ::
    "(u64 \<Rightarrow> 'st \<Rightarrow> SessionRecoveryState Result) \<Rightarrow>
     (u64 \<Rightarrow> u32 \<Rightarrow> u32 \<Rightarrow> 'st \<Rightarrow> MessageRecordViewRange Result) \<Rightarrow>
     'st \<Rightarrow> u64 \<Rightarrow> u32 \<Rightarrow> u32 \<Rightarrow> ReplayPlan Result option" where
  "BuildReplayPlan load_recovery load_views store session_id begin_seq end_seq =
     (if session_id = 0 then Some (Inl (InvalidArgument ''replay plan requires a valid session id''))
      else if begin_seq = 0 then Some (Inl (InvalidArgument ''invalid replay range''))
      else if end_seq = 0
      then (case load_recovery session_id store of
              Inl e \<Rightarrow> Some (Inl e)
            | Inr recovery \<Rightarrow>
                if rs_next_out_seq recovery \<le> 1
                then Some (Inr \<lparr> rp_session_id = session_id, rp_request_begin_seq = begin_seq,
                                 rp_request_end_seq = 0, rp_chunks = [] \<rparr>)
                else build_plan load_views store session_id begin_seq (rs_next_out_seq recovery - 1))
      else build_plan load_views store session_id begin_seq end_seq)"

section \<open>Recovery\<close>

text \<open>Each step of \<^verbatim>\<open>RecoverSession\<close> returns early on an error, with the session as it is by then.\<close>

definition and_then ::
    "Status \<times> SessionCore \<Rightarrow> (SessionCore \<Rightarrow> Status \<times> SessionCore) \<Rightarrow> Status \<times> SessionCore" where
  "and_then r f = (case r of (status, s) \<Rightarrow> if \<not> status_ok status then (status, s) else f s)"

definition RecoverSession ::
    "(u64 \<Rightarrow> 'st \<Rightarrow> SessionRecoveryState Result) \<Rightarrow> 'st \<Rightarrow> RecoveryMode \<Rightarrow> SessionCore \<Rightarrow> Status \<times> SessionCore" where
  "RecoverSession load_recovery store mode session =
     and_then (BeginRecovery session) (\<lambda>session.
       if mode = kMemoryOnly then FinishRecovery session
       else if mode = kNoRecovery \<or> mode = kColdStart
       then and_then (RestoreSequenceState 1 1 session) (\<lambda>session.
              and_then (RecordInboundActivity 0 session) (\<lambda>session.
                and_then (RecordOutboundActivity 0 session) FinishRecovery))
       else (case load_recovery (cfg_session_id (sc_config session)) store of
               Inl e \<Rightarrow> (e, session)
             | Inr recovery \<Rightarrow>
                 and_then (RestoreSequenceState (rs_next_in_seq recovery) (rs_next_out_seq recovery) session) (\<lambda>session.
                   and_then (RecordInboundActivity (rs_last_inbound_ns recovery) session) (\<lambda>session.
                     and_then (RecordOutboundActivity (rs_last_outbound_ns recovery) session) FinishRecovery))))"

section \<open>The loop\<close>

lemma replay_loop_never_ends: "replay_loop records u32_max seq_num state = None"
proof (rule ccontr)
  assume "replay_loop records u32_max seq_num state \<noteq> None"
  then obtain r where ret: "replay_loop records u32_max seq_num state = Some r" by auto
  have "u32_max = u32_max \<longrightarrow> False"
  proof (rule replay_loop.raw_induct [where P = "\<lambda>records e q st r. e = u32_max \<longrightarrow> False", OF _ ret])
    fix f records e q st r
    assume IH: "\<And>records e q st r. f records e q st = Some r \<Longrightarrow> e = u32_max \<longrightarrow> False"
      and eq: "(if q \<le> e then f records e (q + 1) (replay_step records q st) else Some st) = Some r"
    show "e = u32_max \<longrightarrow> False"
    proof
      assume e: "e = u32_max"
      then have "f records e (q + 1) (replay_step records q st) = Some r" using eq by simp
      then show False using IH e by blast
    qed
  qed
  then show False by simp
qed

lemma seq_range_Cons:
  assumes "b \<le> e" and "e \<noteq> u32_max"
  shows "seq_range b e = b # seq_range (b + 1) e"
proof -
  have "b \<noteq> u32_max" using assms word_order.extremum_unique by auto
  then show ?thesis using assms
    by (simp add: seq_range_def unat_Suc_u32 upt_conv_Cons word_le_nat_alt del: upt_Suc)
qed

lemma seq_range_empty: "e < b \<Longrightarrow> seq_range b e = []"
  by (simp add: seq_range_def word_less_nat_alt)

lemma seq_range_snoc:
  assumes "b \<le> e" and "e \<noteq> u32_max"
  shows "seq_range b (e + 1) = seq_range b e @ [e + 1]"
proof -
  have "of_nat (Suc (unat e)) = e + 1" by (simp add: add.commute)
  then show ?thesis
    using assms by (simp add: seq_range_def unat_Suc_u32 [OF assms(2)] word_le_nat_alt)
qed

lemma replay_loop_fold:
  assumes "e \<noteq> u32_max"
  shows "replay_loop records e b st = Some (fold (replay_step records) (seq_range b e) st)"
proof (induction "unat (e + 1) - unat b" arbitrary: b st)
  case 0
  then have "e < b" using unat_Suc_u32 [OF assms] by (simp add: word_less_nat_alt)
  moreover from this have "\<not> b \<le> e" by simp
  ultimately show ?case by (subst replay_loop.simps) (simp add: seq_range_empty)
next
  case (Suc d)
  have le: "b \<le> e" using Suc.hyps(2) unat_Suc_u32 [OF assms] by (simp add: word_le_nat_alt)
  then have "b \<noteq> u32_max" using assms word_order.extremum_unique by auto
  then have "d = unat (e + 1) - unat (b + 1)" using Suc.hyps(2) by (simp add: unat_Suc_u32)
  then show ?case
    using le Suc.hyps(1) by (subst replay_loop.simps) (simp add: seq_range_Cons [OF le assms])
qed


section \<open>What a plan must be\<close>

text \<open>
  The reference: a stored frame is replayed unless it is administrative or was itself a gap
  fill; every other number of the range is covered by a gap fill.
\<close>

definition replayable :: "MessageRecord \<Rightarrow> bool" where
  "replayable r \<longleftrightarrow> \<not> is_admin r \<and> \<not> is_gap_fill r"

definition action_for :: "(u32 \<Rightarrow> MessageRecord option) \<Rightarrow> u32 \<Rightarrow> ReplayActionKind" where
  "action_for frames q = (case frames q of Some r \<Rightarrow> if replayable r then kReplay else kGapFillAction
                          | None \<Rightarrow> kGapFillAction)"

definition frames_to_replay :: "(u32 \<Rightarrow> MessageRecord option) \<Rightarrow> u32 list \<Rightarrow> MessageRecord list" where
  "frames_to_replay frames qs = filter replayable (List.map_filter frames qs)"

definition chunk_actions :: "ReplayChunk \<Rightarrow> (u32 \<times> ReplayActionKind) list" where
  "chunk_actions c = map (\<lambda>q. (q, rc_kind c)) (seq_range (rc_begin_seq c) (rc_end_seq c))"

definition chunks_alternate :: "ReplayChunk list \<Rightarrow> bool" where
  "chunks_alternate cs \<longleftrightarrow> successively (\<lambda>c d. rc_kind c \<noteq> rc_kind d) cs"

definition plan_covers :: "(u32 \<Rightarrow> MessageRecord option) \<Rightarrow> u32 list \<Rightarrow> ReplayChunk list \<Rightarrow> bool" where
  "plan_covers frames qs cs \<longleftrightarrow>
     concat (map chunk_actions cs) = map (\<lambda>q. (q, action_for frames q)) qs \<and>
     concat (map rc_messages cs) = frames_to_replay frames qs \<and>
     (\<forall>c\<in>set cs. rc_messages c = frames_to_replay frames (seq_range (rc_begin_seq c) (rc_end_seq c))) \<and>
     chunks_alternate cs"

lemma map_filter_append: "List.map_filter f (xs @ ys) = List.map_filter f xs @ List.map_filter f ys"
  by (simp add: List.map_filter_def)

lemma frames_to_replay_append:
  "frames_to_replay f (xs @ ys) = frames_to_replay f xs @ frames_to_replay f ys"
  by (simp add: frames_to_replay_def map_filter_append)

lemma frames_to_replay_single:
  "frames_to_replay f [q] = (case f q of Some r \<Rightarrow> if replayable r then [r] else [] | None \<Rightarrow> [])"
  by (simp add: frames_to_replay_def map_filter_simps split: option.splits)

text \<open>The record the loop body sees is the stored frame of the current number.\<close>

lemma current_record:
  assumes seqs: "\<And>q r. frames q = Some r \<Longrightarrow> mr_seq_num r = q"
    and "records = map record_view (List.map_filter frames (ds @ q # rest))"
    and "q \<notin> set rest"
  shows "record_at records (length (List.map_filter frames ds)) q = map_option record_view (frames q)"
proof (cases "frames q")
  case (Some r)
  then show ?thesis using seqs assms(2) by (simp add: record_at_def map_filter_append map_filter_simps nth_append)
next
  case None
  have "mr_seq_num r \<in> set rest" if "r \<in> set (List.map_filter frames rest)" for r
    using that seqs by (auto simp: List.map_filter_def)
  then have "List.map_filter frames rest \<noteq> [] \<Longrightarrow> mr_seq_num (hd (List.map_filter frames rest)) \<noteq> q"
    using assms(3) by (metis hd_in_set)
  then show ?thesis
    using None assms(2)
    by (auto simp: record_at_def map_filter_append map_filter_simps nth_append hd_conv_nth)
qed

text \<open>One iteration, with the record looked up.\<close>

lemma replay_step_eq:
  assumes "record_at records idx q = map_option record_view (frames q)"
    and "rc_begin_seq cur \<noteq> 0 \<longrightarrow> rc_end_seq cur \<noteq> 0"
  shows "replay_step records q (cs, cur, idx) =
    (if rc_begin_seq cur = 0 \<or> rc_kind cur = action_for frames q then cs else cs @ [cur],
     (let base = (if rc_begin_seq cur = 0
                  then cur\<lparr> rc_kind := action_for frames q, rc_begin_seq := q, rc_end_seq := q \<rparr>
                  else if rc_kind cur = action_for frames q then cur\<lparr> rc_end_seq := q \<rparr>
                  else \<lparr> rc_kind = action_for frames q, rc_begin_seq = q, rc_end_seq = q, rc_messages = [] \<rparr>)
      in base\<lparr> rc_messages := rc_messages base @ frames_to_replay frames [q] \<rparr>),
     idx + length (List.map_filter frames [q]))"
  using assms(2)
  by (simp add: replay_step_def assms(1) Let_def split_def FlushChunk_def empty_chunk_def action_for_def
      frames_to_replay_single replayable_def map_filter_simps split: option.splits)


text \<open>What the loop has built after the numbers \<open>ds\<close>, the last of them \<open>last ds\<close>.\<close>

definition replay_inv :: "(u32 \<Rightarrow> MessageRecord option) \<Rightarrow> u32 list \<Rightarrow> replay_state \<Rightarrow> bool" where
  "replay_inv frames ds = (\<lambda>(cs, cur, idx).
     plan_covers frames ds (cs @ [cur]) \<and> idx = length (List.map_filter frames ds) \<and>
     rc_begin_seq cur \<noteq> 0 \<and> rc_begin_seq cur \<le> rc_end_seq cur \<and> rc_end_seq cur = last ds)"

lemma seq_range_single [simp]: "seq_range q q = [q]"
  by (simp add: seq_range_def)

lemma chunks_alternate_snoc:
  "chunks_alternate (cs @ [c]) \<Longrightarrow> rc_kind c \<noteq> rc_kind d \<Longrightarrow> chunks_alternate (cs @ [c, d])"
  by (simp add: chunks_alternate_def successively_append_iff)

lemma chunks_alternate_replace:
  "chunks_alternate (cs @ [c]) \<Longrightarrow> rc_kind d = rc_kind c \<Longrightarrow> chunks_alternate (cs @ [d])"
  by (auto simp: chunks_alternate_def successively_append_iff)

lemma chunk_actions_extend:
  assumes "rc_begin_seq c \<le> rc_end_seq c" and "rc_end_seq c \<noteq> u32_max"
  shows "chunk_actions (c\<lparr> rc_end_seq := rc_end_seq c + 1, rc_messages := m \<rparr>) =
    chunk_actions c @ [(rc_end_seq c + 1, rc_kind c)]"
  using assms by (simp add: chunk_actions_def seq_range_snoc)

lemma replay_first:
  assumes "record_at records 0 q = map_option record_view (frames q)" and "q \<noteq> 0"
  shows "replay_inv frames [q] (replay_step records q ([], empty_chunk, 0))"
  using replay_step_eq [where frames = frames and q = q, OF assms(1), of empty_chunk "[]"] assms(2)
  by (simp add: replay_inv_def plan_covers_def empty_chunk_def Let_def chunk_actions_def chunks_alternate_def)

lemma replay_next:
  assumes "replay_inv frames ds (cs, cur, idx)" and "ds \<noteq> []" and "last ds \<noteq> u32_max" and q: "q = last ds + 1"
    and "record_at records idx q = map_option record_view (frames q)"
  shows "replay_inv frames (ds @ [q]) (replay_step records q (cs, cur, idx))"
proof -
  have inv: "plan_covers frames ds (cs @ [cur])" "idx = length (List.map_filter frames ds)"
    "rc_begin_seq cur \<noteq> 0" "rc_begin_seq cur \<le> rc_end_seq cur" "rc_end_seq cur = last ds"
    using assms(1) by (auto simp: replay_inv_def)
  have end0: "rc_end_seq cur \<noteq> 0" using inv(3,4) word_le_0_iff by auto
  have q0: "q \<noteq> 0" using assms(3) q by (simp add: word_Suc_neq_0)
  have le: "rc_begin_seq cur \<le> q"
    using inv(4,5) unat_Suc_u32 [OF assms(3)] q by (simp add: word_le_nat_alt)
  have msgs: "rc_messages cur = frames_to_replay frames (seq_range (rc_begin_seq cur) (rc_end_seq cur))"
    using inv(1) by (simp add: plan_covers_def)
  have range: "seq_range (rc_begin_seq cur) q = seq_range (rc_begin_seq cur) (rc_end_seq cur) @ [q]"
    using seq_range_snoc [OF inv(4)] assms(3) inv(5) q by simp
  note step = replay_step_eq [where frames = frames and q = q, OF assms(5), of cur cs]
  show ?thesis
  proof (cases "rc_kind cur = action_for frames q")
    case True
    then show ?thesis
      using inv end0 le msgs range step chunks_alternate_replace [of cs cur]
      by (auto simp: replay_inv_def plan_covers_def Let_def chunk_actions_def frames_to_replay_append map_filter_append)
  next
    case False
    then show ?thesis
      using inv end0 q0 step chunks_alternate_snoc [of cs cur]
      by (auto simp: replay_inv_def plan_covers_def Let_def chunk_actions_def frames_to_replay_append map_filter_append)
  qed
qed


lemma seq_range_split:
  assumes "b \<le> q" and "q < e"
  shows "\<exists>rest. seq_range b e = seq_range b q @ (q + 1) # rest \<and> q + 1 \<notin> set rest"
proof -
  have qm: "q \<noteq> u32_max" using assms(2) word_order.extremum_strict by blast
  have "[unat b ..< Suc (unat e)] = [unat b ..< Suc (unat q)] @ [Suc (unat q) ..< Suc (unat e)]"
    using assms upt_add_eq_append [of "unat b" "Suc (unat q)" "unat e - unat q"]
    by (simp add: word_le_nat_alt word_less_nat_alt)
  then have "seq_range b e = seq_range b q @ seq_range (q + 1) e"
    by (simp add: seq_range_def unat_Suc_u32 [OF qm] del: upt_Suc)
  moreover have "seq_range (q + 1) e = (q + 1) # map of_nat [Suc (Suc (unat q)) ..< Suc (unat e)]"
  proof -
    have "of_nat (Suc (unat q)) = q + 1" by (simp add: add.commute)
    moreover have "unat q < unat e" using assms(2) by (simp add: word_less_nat_alt)
    ultimately show ?thesis
      unfolding seq_range_def unat_Suc_u32 [OF qm] by (simp add: upt_conv_Cons del: upt_Suc of_nat_Suc)
  qed
  moreover have "distinct (seq_range (q + 1) e)" using sorted_seq_range strict_sorted_iff by blast
  ultimately show ?thesis by auto
qed

lemma fold_replay_inv:
  assumes seqs: "\<And>q r. frames q = Some r \<Longrightarrow> mr_seq_num r = q"
    and recs: "records = map record_view (List.map_filter frames (seq_range b e))"
    and "b \<noteq> 0" and "b \<le> q" and "q \<le> e"
  shows "replay_inv frames (seq_range b q) (fold (replay_step records) (seq_range b q) ([], empty_chunk, 0))"
  using assms(4,5)
proof (induction "unat q - unat b" arbitrary: q)
  case 0
  then have q: "q = b" by (simp add: word_le_nat_alt word_unat_eq_iff)
  have "\<exists>rest. seq_range b e = [] @ b # rest \<and> b \<notin> set rest"
  proof -
    have "seq_range b e = b # map of_nat [Suc (unat b) ..< Suc (unat e)]"
      using 0 q upt_conv_Cons [of "unat b" "Suc (unat e)"]
      by (simp add: seq_range_def word_le_nat_alt del: upt_Suc)
    moreover have "distinct (seq_range b e)" using sorted_seq_range strict_sorted_iff by blast
    ultimately show ?thesis by auto
  qed
  then obtain rest where "records = map record_view (List.map_filter frames ([] @ b # rest))" "b \<notin> set rest"
    using recs by metis
  then have "record_at records (length (List.map_filter frames [])) b = map_option record_view (frames b)"
    by (intro current_record [where frames = frames, OF seqs])
  then show ?case using replay_first [of records b frames] assms(3) q by (simp add: map_filter_simps)
next
  case (Suc d)
  let ?p = "q - 1"
  have q0: "q \<noteq> 0" using Suc.hyps(2) by auto
  have up: "unat ?p = unat q - 1" using q0 by (rule unat_pred)
  have pm: "?p \<noteq> u32_max"
  proof -
    have "0 < unat q" using q0 by (simp add: unat_gt_0)
    then have "unat ?p < unat u32_max" using up unat_lt_2p32 [of q] unat_u32_max by linarith
    then show ?thesis by auto
  qed
  have p1: "?p + 1 = q" by simp
  have bp: "b \<le> ?p" and pe: "?p < e" and pq: "?p \<le> e"
    using Suc.hyps(2) Suc.prems up by (auto simp: word_le_nat_alt word_less_nat_alt)
  have range: "seq_range b q = seq_range b ?p @ [q]" using seq_range_snoc [OF bp pm] by simp
  obtain cs cur idx where st: "fold (replay_step records) (seq_range b ?p) ([], empty_chunk, 0) = (cs, cur, idx)"
    by (metis prod_cases3)
  have inv: "replay_inv frames (seq_range b ?p) (cs, cur, idx)"
    using Suc.hyps(1) [of ?p] Suc.hyps(2) bp pq up st by simp
  have ne: "seq_range b ?p \<noteq> []" and last: "last (seq_range b ?p) = ?p"
    using bp by (auto simp: seq_range_def word_le_nat_alt)
  obtain rest where "seq_range b e = seq_range b ?p @ q # rest" "q \<notin> set rest"
    using seq_range_split [OF bp pe] p1 by auto
  then have "record_at records (length (List.map_filter frames (seq_range b ?p))) q = map_option record_view (frames q)"
    using recs by (intro current_record [OF seqs]) auto
  moreover have "idx = length (List.map_filter frames (seq_range b ?p))" using inv by (simp add: replay_inv_def)
  ultimately show ?case
    using replay_next [OF inv ne] last pm p1 st range by simp
qed


section \<open>Plans from any store\<close>

context outbound_store
begin

lemma build_plan_correct:
  assumes "invar st" and "b \<noteq> 0" and "b \<le> e" and "e \<noteq> u32_max"
  shows "\<exists>plan. build_plan load_views st sid b e = Some (Inr plan) \<and>
    rp_request_begin_seq plan = b \<and> rp_request_end_seq plan = e \<and>
    plan_covers (frames st sid) (seq_range b e) (rp_chunks plan)"
proof -
  have "0 < b" using assms(2) by (simp add: word_gt_0)
  then obtain rng where rng: "load_views sid b e st = Inr rng"
    "range_records rng = map record_view (List.map_filter (frames st sid) (seq_range b e))"
    using load_frames [OF assms(1) _ assms(3)] by blast
  obtain cs cur idx where st: "fold (replay_step (range_records rng)) (seq_range b e) ([], empty_chunk, 0) = (cs, cur, idx)"
    by (metis prod_cases3)
  have "replay_inv (frames st sid) (seq_range b e) (cs, cur, idx)"
    using fold_replay_inv [where frames = "frames st sid", OF _ rng(2) assms(2,3) order.refl] frames_seq [OF assms(1)] st
    by auto
  then have "plan_covers (frames st sid) (seq_range b e) (cs @ [cur])" "rc_begin_seq cur \<noteq> 0" "rc_end_seq cur \<noteq> 0"
    using word_le_0_iff by (auto simp: replay_inv_def)
  then show ?thesis
    using assms(3) rng(1) replay_loop_fold [OF assms(4), of "range_records rng" b] st
    by (simp add: build_plan_def FlushChunk_def leD)
qed

lemma BuildReplayPlan_correct:
  assumes "invar st" and "sid \<noteq> 0" and "b \<noteq> 0" and "b \<le> e" and "e \<noteq> u32_max"
  shows "\<exists>plan. BuildReplayPlan load_recovery load_views st sid b e = Some (Inr plan) \<and>
    rp_request_begin_seq plan = b \<and> rp_request_end_seq plan = e \<and>
    plan_covers (frames st sid) (seq_range b e) (rp_chunks plan)"
proof -
  have "e \<noteq> 0" using assms(3,4) word_le_0_iff by auto
  then show ?thesis using build_plan_correct [OF assms(1,3-5)] assms(2,3) by (simp add: BuildReplayPlan_def)
qed

lemma BuildReplayPlan_to_infinity:
  assumes "invar st" and "sid \<noteq> 0" and "b \<noteq> 0" and "recovery st sid = Some rs"
    and "1 < rs_next_out_seq rs" and "b < rs_next_out_seq rs"
  shows "\<exists>plan. BuildReplayPlan load_recovery load_views st sid b 0 = Some (Inr plan) \<and>
    plan_covers (frames st sid) (seq_range b (rs_next_out_seq rs - 1)) (rp_chunks plan)"
proof -
  let ?n = "rs_next_out_seq rs"
  have n0: "?n \<noteq> 0" using assms(6) by auto
  have "unat (?n - 1) < unat u32_max"
    using n0 unat_lt_2p32 [of ?n] unat_gt_0 [of ?n] by (simp add: unat_pred)
  then have "?n - 1 \<noteq> u32_max" by auto
  then show ?thesis
    using build_plan_correct [OF assms(1,3) word_le_pred [OF assms(6)], of sid] assms
    by (auto simp: BuildReplayPlan_def load_recovery leD)
qed

lemma BuildReplayPlan_diverges:
  assumes "invar st" and "sid \<noteq> 0" and "b \<noteq> 0"
  shows "BuildReplayPlan load_recovery load_views st sid b u32_max = None"
proof -
  have "0 < b" using assms(3) by (simp add: word_gt_0)
  then obtain rng where "load_views sid b u32_max st = Inr rng"
    using load_frames [OF assms(1), of b u32_max sid] by auto
  moreover have "\<not> u32_max < b" by (simp add: leD)
  ultimately show ?thesis using assms
    by (simp add: BuildReplayPlan_def build_plan_def replay_loop_never_ends)
qed

end

section \<open>Recovery\<close>

lemma and_then_simps [simp]:
  "and_then (Ok, s) f = f s"
  "st \<noteq> Ok \<Longrightarrow> and_then (st, s) f = (st, s)"
  by (simp_all add: and_then_def)

lemma RecoverSession_warm:
  assumes "sc_state s \<noteq> kRecovering" and "load_recovery (cfg_session_id (sc_config s)) store = Inr rs"
    and "rs_next_in_seq rs \<noteq> 0" and "rs_next_out_seq rs \<noteq> 0"
  shows "RecoverSession load_recovery store kWarmRestart s =
    (Ok, s\<lparr> sc_resume_state := sc_state s, sc_next_in_seq := rs_next_in_seq rs,
            sc_next_out_seq := rs_next_out_seq rs, sc_pending_resend := None,
            sc_last_inbound_ns := rs_last_inbound_ns rs, sc_last_outbound_ns := rs_last_outbound_ns rs \<rparr>)"
  using assms
  by (simp add: RecoverSession_def BeginRecovery_def RestoreSequenceState_def RecordInboundActivity_def
      RecordOutboundActivity_def FinishRecovery_def)

lemma RecoverSession_cold:
  assumes "sc_state s \<noteq> kRecovering" and "mode = kColdStart \<or> mode = kNoRecovery"
  shows "RecoverSession load_recovery store mode s =
    (Ok, s\<lparr> sc_resume_state := sc_state s, sc_next_in_seq := 1, sc_next_out_seq := 1, sc_pending_resend := None,
            sc_last_inbound_ns := 0, sc_last_outbound_ns := 0 \<rparr>)"
  using assms
  by (auto simp: RecoverSession_def BeginRecovery_def RestoreSequenceState_def RecordInboundActivity_def
      RecordOutboundActivity_def FinishRecovery_def)

lemma RecoverSession_warm_error:
  assumes "sc_state s \<noteq> kRecovering" and "load_recovery (cfg_session_id (sc_config s)) store = Inl e"
  shows "RecoverSession load_recovery store kWarmRestart s =
    (e, s\<lparr> sc_resume_state := sc_state s, sc_state := kRecovering \<rparr>)"
  using assms by (simp add: RecoverSession_def BeginRecovery_def)


section \<open>Properties of replay and recovery over the memory store\<close>

definition sample_admin_view :: "u32 \<Rightarrow> MessageRecordView" where
  "sample_admin_view q = (sample_view q [])\<lparr> mv_flags := kAdmin \<rparr>"

definition sample_store :: MemorySessionStore where
  "sample_store = Memory_SaveOutbound_all [sample_admin_view 1, sample_view 2 [50], sample_view 4 [52]] MemorySessionStore_new"

lemma sample_store_inv: "memory_inv sample_store"
  by (simp add: sample_store_def memory_inv_new memory_store.save_invar)

text \<open>C11: a resend plan. For any stored content and any request that ends below the last 32-bit
  number, the planner returns a plan whose chunks cover exactly the requested numbers in
  order, replay exactly the stored application frames once each with their bytes, gap-fill
  every other number, and never put two chunks of the same kind next to each other.\<close>

theorem replay_plan_correct:
  assumes "memory_inv st" and "sid \<noteq> 0" and "b \<noteq> 0" and "b \<le> e" and "e \<noteq> u32_max"
  shows "\<exists>plan. BuildReplayPlan Memory_LoadRecoveryState Memory_LoadOutboundRangeViews st sid b e = Some (Inr plan) \<and>
    rp_request_begin_seq plan = b \<and> rp_request_end_seq plan = e \<and>
    plan_covers (memory_frames st sid) (seq_range b e) (rp_chunks plan)"
  using assms by (rule memory_store.BuildReplayPlan_correct)

theorem replay_plan_correct_witness:
  "\<exists>plan. BuildReplayPlan Memory_LoadRecoveryState Memory_LoadOutboundRangeViews sample_store 7 1 4 = Some (Inr plan) \<and>
    plan_covers (memory_frames sample_store 7) (seq_range 1 4) (rp_chunks plan)"
  using replay_plan_correct [OF sample_store_inv, of 7 1 4] by auto

text \<open>C12: an open-ended request (end number zero) is answered up to the last number the session
  has used according to its saved recovery state.\<close>

theorem replay_plan_to_infinity:
  assumes "memory_inv st" and "sid \<noteq> 0" and "b \<noteq> 0" and "memory_recovery st sid = Some rs"
    and "1 < rs_next_out_seq rs" and "b < rs_next_out_seq rs"
  shows "\<exists>plan. BuildReplayPlan Memory_LoadRecoveryState Memory_LoadOutboundRangeViews st sid b 0 = Some (Inr plan) \<and>
    plan_covers (memory_frames st sid) (seq_range b (rs_next_out_seq rs - 1)) (rp_chunks plan)"
  using assms by (rule memory_store.BuildReplayPlan_to_infinity)

definition sample_recovery :: SessionRecoveryState where
  "sample_recovery = \<lparr> rs_session_id = 7, rs_next_in_seq = 3, rs_next_out_seq = 5, rs_last_inbound_ns = 10,
     rs_last_outbound_ns = 20, rs_active = True \<rparr>"

theorem replay_plan_to_infinity_witness:
  "\<exists>plan. BuildReplayPlan Memory_LoadRecoveryState Memory_LoadOutboundRangeViews
      (snd (Memory_SaveRecoveryState sample_recovery sample_store)) 7 2 0 = Some (Inr plan) \<and>
    plan_covers (memory_frames (snd (Memory_SaveRecoveryState sample_recovery sample_store)) 7) (seq_range 2 (5 - 1))
      (rp_chunks plan)"
proof -
  let ?st = "snd (Memory_SaveRecoveryState sample_recovery sample_store)"
  have "memory_inv ?st" by (rule memory_store.save_recovery_invar [OF sample_store_inv])
  moreover have "memory_recovery ?st 7 = Some sample_recovery"
    using memory_store.save_recovery_recovery [OF sample_store_inv] by (simp add: sample_recovery_def)
  ultimately show ?thesis
    using replay_plan_to_infinity [of ?st 7 2 sample_recovery] by (simp add: sample_recovery_def)
qed

text \<open>C13: a request that ends at the last 32-bit number makes the planner loop forever: the loop
  counter wraps to zero and never exceeds the end.\<close>

theorem replay_plan_diverges:
  assumes "memory_inv st" and "sid \<noteq> 0" and "b \<noteq> 0"
  shows "BuildReplayPlan Memory_LoadRecoveryState Memory_LoadOutboundRangeViews st sid b u32_max = None"
  using assms by (rule memory_store.BuildReplayPlan_diverges)

theorem replay_plan_diverges_witness:
  "BuildReplayPlan Memory_LoadRecoveryState Memory_LoadOutboundRangeViews sample_store 7 1 u32_max = None"
  using replay_plan_diverges [OF sample_store_inv, of 7 1] by simp

text \<open>C14: warm restart. Recovering from a store to which the recovery state was saved brings the
  counters and activity times back, clears the pending range and leaves the session in the
  connection state it was in.\<close>

theorem warm_restart_roundtrip:
  assumes "memory_inv st" and "sc_state s \<noteq> kRecovering" and "cfg_session_id (sc_config s) = rs_session_id rs"
    and "rs_session_id rs \<noteq> 0" and "rs_next_in_seq rs \<noteq> 0" and "rs_next_out_seq rs \<noteq> 0"
  shows "RecoverSession Memory_LoadRecoveryState (snd (Memory_SaveRecoveryState rs st)) kWarmRestart s =
    (Ok, s\<lparr> sc_resume_state := sc_state s, sc_next_in_seq := rs_next_in_seq rs,
            sc_next_out_seq := rs_next_out_seq rs, sc_pending_resend := None,
            sc_last_inbound_ns := rs_last_inbound_ns rs, sc_last_outbound_ns := rs_last_outbound_ns rs \<rparr>)"
proof -
  have "Memory_LoadRecoveryState (cfg_session_id (sc_config s)) (snd (Memory_SaveRecoveryState rs st)) = Inr rs"
    using assms memory_store.save_recovery_invar [OF assms(1), of rs]
    by (simp add: memory_store.load_recovery memory_store.save_recovery_recovery)
  then show ?thesis using assms by (intro RecoverSession_warm) auto
qed

theorem warm_restart_roundtrip_witness:
  "fst (RecoverSession Memory_LoadRecoveryState (snd (Memory_SaveRecoveryState sample_recovery MemorySessionStore_new))
     kWarmRestart (SessionCore_new sample_session_config)) = Ok"
  using warm_restart_roundtrip [OF memory_inv_new, of "SessionCore_new sample_session_config" sample_recovery]
  by (simp add: SessionCore_new_def sample_session_config_def sample_recovery_def)

text \<open>C15: a warm restart for which the store has no recovery state reports the error and leaves the
  session recovering; a second attempt then fails because recovery is already under way.\<close>

theorem warm_restart_missing_state:
  assumes "sc_state s \<noteq> kRecovering" and "memory_inv st"
    and "memory_recovery st (cfg_session_id (sc_config s)) = None"
  shows "\<exists>s'. RecoverSession Memory_LoadRecoveryState st kWarmRestart s =
      (NotFound ''recovery state not found'', s') \<and> sc_state s' = kRecovering \<and>
    RecoverSession Memory_LoadRecoveryState st mode s' = (InvalidArgument ''session is already recovering'', s')"
  using assms
  by (simp add: RecoverSession_warm_error memory_store.load_recovery)
    (simp add: RecoverSession_def BeginRecovery_def)

theorem warm_restart_missing_state_witness:
  "\<exists>s'. RecoverSession Memory_LoadRecoveryState MemorySessionStore_new kWarmRestart (SessionCore_new sample_session_config) =
      (NotFound ''recovery state not found'', s') \<and> sc_state s' = kRecovering \<and>
    RecoverSession Memory_LoadRecoveryState MemorySessionStore_new kColdStart s' =
      (InvalidArgument ''session is already recovering'', s')"
  by (rule warm_restart_missing_state [OF _ memory_inv_new])
    (simp_all add: SessionCore_new_def memory_recovery_def MemorySessionStore_new_def)

end
