(* ===== verification/Wire_Format.thy ===== *)
theory Wire_Format
  imports Prelude
begin

text \<open>
  The byte-level helpers every encoder and decoder of the engine shares: integer formatting
  (\<^verbatim>\<open>codec/fast_int_format.h\<close>), byte scanning and checksums (\<^verbatim>\<open>codec/simd_scan.h\<close>) and
  the tag classification of \<^verbatim>\<open>codec/fix_tags.h\<close>. A pointer into a buffer is its offset; a
  \<^verbatim>\<open>string_view\<close> or \<^verbatim>\<open>span\<close> is the list of its bytes. The 128-bit SSE2 registers are
  lists of sixteen bytes and each intrinsic used is written out on them. The lemmas show the
  vectorised scans equal to their scalar definitions and the formatting routines equal to
  canonical decimal notation.
\<close>

section \<open>Characters and bytes\<close>

text \<open>\<^verbatim>\<open>reinterpret_cast\<close> between \<^verbatim>\<open>char\<close> and \<^verbatim>\<open>std::byte\<close> buffers.\<close>

definition bytes_of :: "string \<Rightarrow> bytes" where
  "bytes_of s = map (\<lambda>c. of_nat (of_char c)) s"

definition string_of :: "bytes \<Rightarrow> string" where
  "string_of bs = map (\<lambda>b. char_of (unat b)) bs"

section \<open>Formatting integers\<close>

definition BuildDigitPairTable :: "(u8 \<times> u8) list" where
  "BuildDigitPairTable = map (\<lambda>i. (48 + of_nat (i div 10), 48 + of_nat (i mod 10))) [0..<100]"

definition kDigitPairs :: "nat \<Rightarrow> u8 \<times> u8" where
  "kDigitPairs i = BuildDigitPairTable ! i"

text \<open>The sequential decomposition loop: the digits come out units first.\<close>

function seq_digits :: "nat \<Rightarrow> bytes" where
  "seq_digits v = (if v > 0 then (48 + of_nat (v mod 10)) # seq_digits (v div 10) else [])"
  by auto
termination by (relation "measure id") auto

declare seq_digits.simps [simp del]

definition FormatUint32 :: "u32 \<Rightarrow> bytes" where
  "FormatUint32 value =
     (if value < 10 then [48 + ucast value]
      else if value < 100 then
        (let p = kDigitPairs (unat value) in [fst p, snd p])
      else if value < 1000 then
        (let p = kDigitPairs (unat (value mod 100)) in [48 + ucast (value div 100), fst p, snd p])
      else if value < 10000 then
        (let p1 = kDigitPairs (unat (value div 100)); p2 = kDigitPairs (unat (value mod 100))
         in [fst p1, snd p1, fst p2, snd p2])
      else if value < 100000 then
        (let q = value div 100;
             p1 = kDigitPairs (unat (q mod 100)); p2 = kDigitPairs (unat (value mod 100))
         in [48 + ucast (q div 100), fst p1, snd p1, fst p2, snd p2])
      else if value < 1000000 then
        (let q = value div 100;
             p0 = kDigitPairs (unat (q div 100));
             p1 = kDigitPairs (unat (q mod 100)); p2 = kDigitPairs (unat (value mod 100))
         in [fst p0, snd p0, fst p1, snd p1, fst p2, snd p2])
      else if value < 10000000 then
        (let q = value div 10000; r = value mod 10000;
             p1 = kDigitPairs (unat (q mod 100));
             p2 = kDigitPairs (unat (r div 100)); p3 = kDigitPairs (unat (r mod 100))
         in [48 + ucast (q div 100), fst p1, snd p1, fst p2, snd p2, fst p3, snd p3])
      else rev (seq_digits (unat value)))"

definition FormatInt64 :: "64 word \<Rightarrow> bytes" where
  "FormatInt64 value =
     (if sint value < 0 then
        (let uval = - (value + 1) + 1
         in 45 # (if uval \<le> 4294967295 then FormatUint32 (ucast uval) else rev (seq_digits (unat uval))))
      else if sint value \<le> 4294967295 then FormatUint32 (ucast value)
      else rev (seq_digits (unat value)))"

text \<open>
  \<^verbatim>\<open>std::from_chars\<close> for \<^verbatim>\<open>uint32_t\<close> in base ten: the longest digit prefix; \<^const>\<open>None\<close> when there is
  no digit or the value is out of range, else the value and the number of characters used.
\<close>

definition is_digit :: "u8 \<Rightarrow> bool" where
  "is_digit c \<longleftrightarrow> 48 \<le> c \<and> c \<le> 57"

definition digits_value :: "bytes \<Rightarrow> nat" where
  "digits_value ds = foldl (\<lambda>acc c. acc * 10 + unat (c - 48)) 0 ds"

definition from_chars_u32 :: "bytes \<Rightarrow> (u32 \<times> nat) option" where
  "from_chars_u32 text =
     (let ds = takeWhile is_digit text
      in if ds = [] \<or> digits_value ds \<ge> 2 ^ 32 then None
         else Some (of_nat (digits_value ds), length ds))"

section \<open>Scanning\<close>

primrec FindByteShortScalar :: "bytes \<Rightarrow> u8 \<Rightarrow> nat" where
  "FindByteShortScalar [] needle = 0"
| "FindByteShortScalar (b # bs) needle = (if b = needle then 0 else Suc (FindByteShortScalar bs needle))"

text \<open>
  \<^verbatim>\<open>_mm_movemask_epi8\<close> of a comparison: bit \<open>k\<close> tells whether byte \<open>k\<close> of the chunk matched;
  \<^verbatim>\<open>__builtin_ctz\<close> counts the trailing zero bits.
\<close>

definition movemask :: "bool list \<Rightarrow> u32" where
  "movemask cmp = horner_sum of_bool 2 cmp"

definition ctz :: "u32 \<Rightarrow> nat" where
  "ctz m = length (takeWhile (\<lambda>k. \<not> bit m k) [0..<32])"

function FindByteSse2_loop :: "bytes \<Rightarrow> u8 \<Rightarrow> nat \<Rightarrow> nat" where
  "FindByteSse2_loop data needle i =
     (if i + 16 \<le> length data then
        (let mask = movemask (map (\<lambda>b. b = needle) (take 16 (drop i data)))
         in if mask \<noteq> 0 then i + ctz mask else FindByteSse2_loop data needle (i + 16))
      else i + FindByteShortScalar (drop i data) needle)"
  by auto
termination by (relation "measure (\<lambda>(data, _, i). length data - i)") auto

declare FindByteSse2_loop.simps [simp del]

definition FindByteSse2 :: "bytes \<Rightarrow> u8 \<Rightarrow> nat" where
  "FindByteSse2 data needle = FindByteSse2_loop data needle 0"

definition FindByte :: "bytes \<Rightarrow> u8 \<Rightarrow> nat" where
  "FindByte data needle =
     (if length data < 16 then FindByteShortScalar data needle else FindByteSse2 data needle)"

function FindEitherByte_loop :: "bytes \<Rightarrow> u8 \<Rightarrow> u8 \<Rightarrow> nat \<Rightarrow> nat" where
  "FindEitherByte_loop data a b i =
     (if i + 16 \<le> length data then
        (let chunk = take 16 (drop i data);
             mask = movemask (map2 (\<or>) (map (\<lambda>x. x = a) chunk) (map (\<lambda>x. x = b) chunk))
         in if mask \<noteq> 0 then i + ctz mask else FindEitherByte_loop data a b (i + 16))
      else if i < length data then
        (if data ! i = a \<or> data ! i = b then i else FindEitherByte_loop data a b (i + 1))
      else length data)"
  by auto
termination by (relation "measure (\<lambda>(data, _, _, i). length data - i)") auto

declare FindEitherByte_loop.simps [simp del]

definition FindEitherByte :: "bytes \<Rightarrow> u8 \<Rightarrow> u8 \<Rightarrow> nat" where
  "FindEitherByte data a b = FindEitherByte_loop data a b 0"

text \<open>
  \<^verbatim>\<open>_mm_sad_epu8\<close> against zero: the byte sums of the two halves, as 16-bit lanes 0 and 4.
\<close>

definition sad_epu8 :: "bytes \<Rightarrow> u16 \<times> u16" where
  "sad_epu8 chunk =
     (sum_list (map ucast (take 8 chunk)), sum_list (map ucast (drop 8 chunk)))"

function checksum_loop :: "bytes \<Rightarrow> nat \<Rightarrow> u32 \<Rightarrow> u32" where
  "checksum_loop data i acc =
     (if i + 16 \<le> length data then
        (let sad = sad_epu8 (take 16 (drop i data))
         in checksum_loop data (i + 16) (acc + (ucast (fst sad) + ucast (snd sad))))
      else if i < length data then checksum_loop data (i + 1) (acc + ucast (data ! i))
      else acc)"
  by auto
termination by (relation "measure (\<lambda>(data, i, _). length data - i)") auto

declare checksum_loop.simps [simp del]

definition ComputeChecksumSIMD :: "bytes \<Rightarrow> u32" where
  "ComputeChecksumSIMD data = checksum_loop data 0 0"


section \<open>Tags\<close>

text \<open>The tag numbers and wire prefixes of \<^verbatim>\<open>codec/fix_tags.h\<close> the modelled code uses.\<close>

abbreviation kBeginString :: u32 where "kBeginString \<equiv> 8"
abbreviation kBodyLength :: u32 where "kBodyLength \<equiv> 9"
abbreviation kCheckSum :: u32 where "kCheckSum \<equiv> 10"
abbreviation kMsgSeqNum :: u32 where "kMsgSeqNum \<equiv> 34"
abbreviation kMsgType :: u32 where "kMsgType \<equiv> 35"
abbreviation kPossDupFlag :: u32 where "kPossDupFlag \<equiv> 43"
abbreviation kSenderCompID :: u32 where "kSenderCompID \<equiv> 49"
abbreviation kSenderSubID :: u32 where "kSenderSubID \<equiv> 50"
abbreviation kSendingTime :: u32 where "kSendingTime \<equiv> 52"
abbreviation kTargetCompID :: u32 where "kTargetCompID \<equiv> 56"
abbreviation kTargetSubID :: u32 where "kTargetSubID \<equiv> 57"
abbreviation kPossResend :: u32 where "kPossResend \<equiv> 97"
abbreviation kOrigSendingTime :: u32 where "kOrigSendingTime \<equiv> 122"
abbreviation kDefaultApplVerID :: u32 where "kDefaultApplVerID \<equiv> 1137"
abbreviation kBeginSeqNo :: u32 where "kBeginSeqNo \<equiv> 7"
abbreviation kEndSeqNo :: u32 where "kEndSeqNo \<equiv> 16"
abbreviation kNewSeqNo :: u32 where "kNewSeqNo \<equiv> 36"
abbreviation kRefSeqNum :: u32 where "kRefSeqNum \<equiv> 45"
abbreviation kText :: u32 where "kText \<equiv> 58"
abbreviation kSecureDataLen :: u32 where "kSecureDataLen \<equiv> 90"
abbreviation kSecureData :: u32 where "kSecureData \<equiv> 91"
abbreviation kEncryptMethod :: u32 where "kEncryptMethod \<equiv> 98"
abbreviation kHeartBtInt :: u32 where "kHeartBtInt \<equiv> 108"
abbreviation kTestReqID :: u32 where "kTestReqID \<equiv> 112"
abbreviation kOnBehalfOfCompID :: u32 where "kOnBehalfOfCompID \<equiv> 115"
abbreviation kGapFillFlag :: u32 where "kGapFillFlag \<equiv> 123"
abbreviation kDeliverToCompID :: u32 where "kDeliverToCompID \<equiv> 128"
abbreviation kResetSeqNumFlag :: u32 where "kResetSeqNumFlag \<equiv> 141"
abbreviation kRefTagID :: u32 where "kRefTagID \<equiv> 371"
abbreviation kRefMsgType :: u32 where "kRefMsgType \<equiv> 372"
abbreviation kRejectReason :: u32 where "kRejectReason \<equiv> 373"
abbreviation kNextExpectedMsgSeqNum :: u32 where "kNextExpectedMsgSeqNum \<equiv> 789"
abbreviation kApplVerID :: u32 where "kApplVerID \<equiv> 1128"

abbreviation kBeginStringPrefix :: bytes where "kBeginStringPrefix \<equiv> bytes_of ''8=''"
abbreviation kBodyLengthPrefix :: bytes where "kBodyLengthPrefix \<equiv> bytes_of ''9=''"
abbreviation kCheckSumPrefix :: bytes where "kCheckSumPrefix \<equiv> bytes_of ''10=''"
abbreviation kMsgSeqNumPrefix :: bytes where "kMsgSeqNumPrefix \<equiv> bytes_of ''34=''"
abbreviation kMsgTypePrefix :: bytes where "kMsgTypePrefix \<equiv> bytes_of ''35=''"
abbreviation kPossResendPrefix :: bytes where "kPossResendPrefix \<equiv> bytes_of ''97=''"
abbreviation kSenderCompIDPrefix :: bytes where "kSenderCompIDPrefix \<equiv> bytes_of ''49=''"
abbreviation kSenderSubIDPrefix :: bytes where "kSenderSubIDPrefix \<equiv> bytes_of ''50=''"
abbreviation kSendingTimePrefix :: bytes where "kSendingTimePrefix \<equiv> bytes_of ''52=''"
abbreviation kTargetCompIDPrefix :: bytes where "kTargetCompIDPrefix \<equiv> bytes_of ''56=''"
abbreviation kTargetSubIDPrefix :: bytes where "kTargetSubIDPrefix \<equiv> bytes_of ''57=''"
abbreviation kOnBehalfOfCompIDPrefix :: bytes where "kOnBehalfOfCompIDPrefix \<equiv> bytes_of ''115=''"
abbreviation kOrigSendingTimePrefix :: bytes where "kOrigSendingTimePrefix \<equiv> bytes_of ''122=''"
abbreviation kDeliverToCompIDPrefix :: bytes where "kDeliverToCompIDPrefix \<equiv> bytes_of ''128=''"
abbreviation kApplVerIDPrefix :: bytes where "kApplVerIDPrefix \<equiv> bytes_of ''1128=''"
abbreviation kDefaultApplVerIDPrefix :: bytes where "kDefaultApplVerIDPrefix \<equiv> bytes_of ''1137=''"
abbreviation kPossDupFlagYesField :: bytes where "kPossDupFlagYesField \<equiv> bytes_of ''43=Y''"
abbreviation kPossResendYesField :: bytes where "kPossResendYesField \<equiv> bytes_of ''97=Y''"

definition IsFrameStructureTag :: "u32 \<Rightarrow> bool" where
  "IsFrameStructureTag tag \<longleftrightarrow> tag \<in> {kBeginString, kBodyLength, kCheckSum}"

definition IsStandardSessionHeaderTag :: "u32 \<Rightarrow> bool" where
  "IsStandardSessionHeaderTag tag \<longleftrightarrow>
     tag \<in> {kMsgSeqNum, kMsgType, kPossDupFlag, kSenderCompID, kSenderSubID, kSendingTime, kTargetCompID,
            kTargetSubID, kPossResend, kOrigSendingTime, kApplVerID, kDefaultApplVerID}"

definition IsRoutingSessionHeaderTag :: "u32 \<Rightarrow> bool" where
  "IsRoutingSessionHeaderTag tag \<longleftrightarrow> tag \<in> {kOnBehalfOfCompID, kDeliverToCompID}"

datatype SessionHeaderTagClass = kNone | kStandard | kRouting

definition ClassifySessionHeaderTag :: "u32 \<Rightarrow> SessionHeaderTagClass" where
  "ClassifySessionHeaderTag tag =
     (if IsStandardSessionHeaderTag tag then kStandard
      else if IsRoutingSessionHeaderTag tag then kRouting
      else kNone)"

definition IsAggregateSessionHeaderTag :: "u32 \<Rightarrow> bool" where
  "IsAggregateSessionHeaderTag tag \<longleftrightarrow> ClassifySessionHeaderTag tag \<noteq> kNone"

definition IsAggregateSessionEnvelopeTag :: "u32 \<Rightarrow> bool" where
  "IsAggregateSessionEnvelopeTag tag \<longleftrightarrow> IsFrameStructureTag tag \<or> IsAggregateSessionHeaderTag tag"

definition IsEncodeManagedTag :: "u32 \<Rightarrow> bool" where
  "IsEncodeManagedTag tag \<longleftrightarrow> IsFrameStructureTag tag \<or> IsAggregateSessionHeaderTag tag"

section \<open>Bytes and characters\<close>

lemma unat_lt_2p8: "unat (b :: u8) < 256"
  using unsigned_less [of b, where ?'a = nat] by simp

lemma of_nat_of_char_of [simp]: "(of_nat (of_char (char_of (unat b) :: char) :: nat) :: u8) = b"
  using unat_lt_2p8 [of b] by (simp add: mod_less)

lemma char_of_unat_of_char [simp]: "char_of (unat (of_nat (of_char c :: nat) :: u8)) = c"
proof -
  have "(of_char c :: nat) < 256" by simp
  then show ?thesis by (simp add: unat_of_nat)
qed

lemma bytes_of_string_of [simp]: "bytes_of (string_of bs) = bs"
  by (simp add: bytes_of_def string_of_def o_def del: of_char_of)

lemma string_of_bytes_of [simp]: "string_of (bytes_of s) = s"
  by (simp add: bytes_of_def string_of_def o_def)

lemma bytes_of_append [simp]: "bytes_of (s @ t) = bytes_of s @ bytes_of t"
  by (simp add: bytes_of_def)

lemma bytes_of_Nil_iff [simp]: "bytes_of s = [] \<longleftrightarrow> s = []"
  by (simp add: bytes_of_def)

lemma length_bytes_of [simp]: "length (bytes_of s) = length s"
  by (simp add: bytes_of_def)

section \<open>Canonical decimal notation\<close>

text \<open>The reference the formatting routines are compared with.\<close>

fun dec :: "nat \<Rightarrow> bytes" where
  "dec n = (if n < 10 then [48 + of_nat n] else dec (n div 10) @ [48 + of_nat (n mod 10)])"

declare dec.simps [simp del]

lemma dec_lt [simp]: "n < 10 \<Longrightarrow> dec n = [48 + of_nat n]"
  by (simp add: dec.simps)

lemma dec_ge: "10 \<le> n \<Longrightarrow> dec n = dec (n div 10) @ [48 + of_nat (n mod 10)]"
  by (subst dec.simps) simp

lemma rev_seq_digits: "0 < n \<Longrightarrow> rev (seq_digits n) = dec n"
proof (induction n rule: dec.induct)
  case (1 n)
  show ?case
  proof (cases "n < 10")
    case True
    with 1 have "n div 10 = 0" "0 < n" by auto
    with True show ?thesis by (subst seq_digits.simps) (simp add: seq_digits.simps [of 0])
  next
    case False
    then show ?thesis using 1 by (subst seq_digits.simps) (simp add: dec_ge)
  qed
qed

lemma kDigitPairs_eq:
  "i < 100 \<Longrightarrow> kDigitPairs i = (48 + of_nat (i div 10), 48 + of_nat (i mod 10))"
  by (simp add: kDigitPairs_def BuildDigitPairTable_def)

lemma ucast_u8: "(ucast (w :: u32) :: u8) = of_nat (unat w)"
  by simp

lemma dec_pair: "10 \<le> n \<Longrightarrow> n < 100 \<Longrightarrow> dec n = [48 + of_nat (n div 10), 48 + of_nat (n mod 10)]"
  by (simp add: dec_ge)

lemma dec_hundred:
  assumes "100 \<le> n"
  shows "dec n = dec (n div 100) @ [48 + of_nat (n mod 100 div 10), 48 + of_nat (n mod 10)]"
proof -
  have "dec n = dec (n div 10) @ [48 + of_nat (n mod 10)]" using assms by (simp add: dec_ge)
  also have "dec (n div 10) = dec (n div 10 div 10) @ [48 + of_nat (n div 10 mod 10)]"
    by (rule dec_ge) (use assms in linarith)
  also have "n div 10 div 10 = n div 100" by (simp add: div_mult2_eq [symmetric])
  also have "n div 10 mod 10 = n mod 100 div 10"
    using mod_mult2_eq [of n 10 10] by simp
  finally show ?thesis by simp
qed

lemma u32_split:
  "unat ((v :: u32) div 100) = unat v div 100" "unat (v mod 100) = unat v mod 100"
  "unat (v div 10000) = unat v div 10000" "unat (v mod 10000) = unat v mod 10000"
  by (simp_all add: unat_div unat_mod)

lemma FormatUint32_eq: "FormatUint32 v = dec (unat v)"
proof -
  define n where "n = unat v"
  have lt: "v < of_nat k \<longleftrightarrow> n < k" if "k < 4294967296" for k
    using that by (simp add: n_def word_less_nat_alt unat_of_nat)
  consider "n < 10" | "10 \<le> n" "n < 100" | "100 \<le> n" "n < 1000" | "1000 \<le> n" "n < 10000"
    | "10000 \<le> n" "n < 100000" | "100000 \<le> n" "n < 1000000" | "1000000 \<le> n" "n < 10000000"
    | "10000000 \<le> n" by linarith
  then show ?thesis
  proof cases
    case 1 then show ?thesis using lt [of 10] by (simp add: FormatUint32_def n_def)
  next
    case 2 then show ?thesis using lt [of 10] lt [of 100]
      by (simp add: FormatUint32_def n_def kDigitPairs_eq dec_pair)
  next
    case 3 then show ?thesis using lt [of 10] lt [of 100] lt [of 1000]
      by (simp add: FormatUint32_def n_def kDigitPairs_eq dec_hundred u32_split ucast_u8 mod_mod_cancel)
  next
    case 8 then show ?thesis using lt [of 10] lt [of 100] lt [of 1000] lt [of 10000] lt [of 100000]
      lt [of 1000000] lt [of 10000000]
      by (simp add: FormatUint32_def n_def rev_seq_digits)
  next
    case 4
    then have "n div 100 < 100" "10 \<le> n div 100" by auto
    with 4 show ?thesis using lt [of 10] lt [of 100] lt [of 1000] lt [of 10000]
      by (simp add: FormatUint32_def n_def kDigitPairs_eq dec_hundred dec_pair u32_split mod_mod_cancel)
  next
    case 5
    then have "100 \<le> n div 100" "n div 10000 < 10" by auto
    with 5 show ?thesis using lt [of 10] lt [of 100] lt [of 1000] lt [of 10000] lt [of 100000]
      by (simp add: FormatUint32_def n_def kDigitPairs_eq dec_hundred u32_split mod_mod_cancel
          ucast_u8 div_mult2_eq [symmetric])
  next
    case 6
    then have "100 \<le> n div 100" "n div 10000 < 100" "10 \<le> n div 10000" by auto
    with 6 show ?thesis
      using lt [of 10] lt [of 100] lt [of 1000] lt [of 10000] lt [of 100000] lt [of 1000000]
      by (simp add: FormatUint32_def n_def kDigitPairs_eq dec_hundred dec_pair u32_split mod_mod_cancel
          div_mult2_eq [symmetric])
  next
    case 7
    then have "100 \<le> n div 100" "100 \<le> n div 10000" "n div 1000000 < 10" by auto
    moreover have "n mod 10000 div 100 = n div 100 mod 100" using mod_mult2_eq [of n 100 100] by simp
    ultimately show ?thesis using 7
        lt [of 10] lt [of 100] lt [of 1000] lt [of 10000] lt [of 100000] lt [of 1000000] lt [of 10000000]
      by (simp add: FormatUint32_def n_def kDigitPairs_eq dec_hundred dec_pair u32_split mod_mod_cancel
          ucast_u8 div_mult2_eq [symmetric])
  qed
qed

lemma FormatInt64_eq:
  "FormatInt64 v = (if sint v < 0 then 45 # dec (nat (- sint v)) else dec (nat (sint v)))"
proof (cases "sint v < 0")
  case True
  let ?u = "- (v + 1) + 1"
  have u: "?u = - v" by simp
  have n: "unat (- v) = nat (- sint v)"
  proof -
    have "- v = word_of_int (- sint v)" by simp
    moreover have "uint (word_of_int (- sint v) :: u64) = (- sint v) mod 2 ^ 64"
      by (subst uint_word_of_int) simp
    ultimately have "uint (- v) = (- sint v) mod 2 ^ 64" by (rule ssubst)
    moreover have "0 \<le> - sint v" "- sint v < 2 ^ 64" using True sint_ge [of v] by auto
    ultimately show ?thesis by (simp add: unat_eq_nat_uint)
  qed
  have le: "- v \<le> 4294967295 \<longleftrightarrow> unat (- v) \<le> 4294967295" by (simp add: word_le_nat_alt)
  have uc: "unat (ucast (- v) :: u32) = unat (- v)" if "unat (- v) \<le> 4294967295"
    using that by (simp add: unsigned_ucast_eq take_bit_eq_mod)
  have "0 < unat (- v)" using True n by linarith
  then show ?thesis using True
    by (simp add: FormatInt64_def Let_def FormatUint32_eq u le uc rev_seq_digits n)
next
  case False
  have n: "unat v = nat (sint v)"
  proof -
    have "v = word_of_int (sint v)" by simp
    moreover have "uint (word_of_int (sint v) :: u64) = sint v mod 2 ^ 64" by (subst uint_word_of_int) simp
    ultimately have "uint v = sint v mod 2 ^ 64" by (rule ssubst)
    moreover have "sint v < 2 ^ 64" using sint_lt [of v] by simp
    ultimately show ?thesis using False by (simp add: unat_eq_nat_uint)
  qed
  have uc: "unat (ucast v :: u32) = unat v" if "unat v \<le> 4294967295"
    using that by (simp add: unsigned_ucast_eq take_bit_eq_mod)
  show ?thesis
  proof (cases "sint v \<le> 4294967295")
    case True
    with False n have "unat v \<le> 4294967295" by linarith
    with True False show ?thesis by (simp add: FormatInt64_def FormatUint32_eq uc n)
  next
    case big: False
    then have "0 < unat v" using n by linarith
    with big False show ?thesis by (simp add: FormatInt64_def rev_seq_digits n)
  qed
qed

subsection \<open>Reading decimals back\<close>

lemma is_digit_of_nat [simp]: "n < 10 \<Longrightarrow> is_digit (48 + of_nat n)"
  by (simp add: is_digit_def word_le_nat_alt unat_word_ariths unat_of_nat)

lemma is_digit_dec: "c \<in> set (dec n) \<Longrightarrow> is_digit c"
proof (induction n rule: dec.induct)
  case (1 n)
  then show ?case by (cases "n < 10") (auto simp: dec_ge)
qed

lemma dec_not_Nil [simp]: "dec n \<noteq> []"
  by (subst dec.simps) simp

lemma digits_value_snoc [simp]: "digits_value (ds @ [c]) = digits_value ds * 10 + unat (c - 48)"
  by (simp add: digits_value_def)

lemma digits_value_dec [simp]: "digits_value (dec n) = n"
proof (induction n rule: dec.induct)
  case (1 n)
  show ?case
  proof (cases "n < 10")
    case True
    then show ?thesis by (simp add: digits_value_def unat_of_nat)
  next
    case False
    then show ?thesis using 1 by (simp add: dec_ge unat_of_nat)
  qed
qed

lemma from_chars_dec:
  assumes "n < 2 ^ 32" and "rest = [] \<or> \<not> is_digit (hd rest)"
  shows "from_chars_u32 (dec n @ rest) = Some (of_nat n, length (dec n))"
proof -
  have "takeWhile is_digit (dec n @ rest) = dec n"
    using assms(2) is_digit_dec by (cases rest) (auto simp: takeWhile_append)
  then show ?thesis using assms(1) by (simp add: from_chars_u32_def)
qed

section \<open>The vectorised scans\<close>

lemma FindByteShortScalar_eq: "FindByteShortScalar data needle = length (takeWhile (\<lambda>b. b \<noteq> needle) data)"
  by (induction data) auto

lemma bit_movemask: "length cmp \<le> 32 \<Longrightarrow> bit (movemask cmp) k \<longleftrightarrow> k < length cmp \<and> cmp ! k"
  by (auto simp: movemask_def bit_horner_sum_bit_word_iff)

lemma ctz_eqI:
  assumes "k < 32" and "bit m k" and "\<And>j. j < k \<Longrightarrow> \<not> bit m j"
  shows "ctz m = k"
proof -
  have "[0..<32] = [0..<k] @ [k..<32]" using assms(1) upt_add_eq_append [of 0 k "32 - k"] by simp
  then have "[0..<32] = [0..<k] @ k # [Suc k..<32]" using assms(1) by (simp add: upt_conv_Cons)
  then have "takeWhile (\<lambda>j. \<not> bit m j) [0..<32] = [0..<k]"
    using assms by (simp add: takeWhile_append)
  then show ?thesis by (simp add: ctz_def)
qed

lemma movemask_eq_0_iff:
  "length chunk \<le> 32 \<Longrightarrow> movemask (map P chunk) = 0 \<longleftrightarrow> (\<forall>b\<in>set chunk. \<not> P b)"
  by (auto simp: bit_eq_iff bit_movemask all_set_conv_all_nth)

lemma ctz_movemask:
  assumes "length chunk \<le> 32" and "movemask (map P chunk) \<noteq> 0"
  shows "ctz (movemask (map P chunk)) = length (takeWhile (\<lambda>b. \<not> P b) chunk)"
proof (rule ctz_eqI)
  let ?k = "length (takeWhile (\<lambda>b. \<not> P b) chunk)"
  have "\<exists>b\<in>set chunk. P b" using assms by (simp add: movemask_eq_0_iff)
  then have k: "?k < length chunk" by (metis length_takeWhile_le order_le_less takeWhile_eq_all_conv takeWhile_eq_take take_all)
  then show "?k < 32" using assms(1) by simp
  show "bit (movemask (map P chunk)) ?k"
    using k nth_length_takeWhile [OF k] assms(1) by (simp add: bit_movemask)
  fix j assume "j < ?k"
  moreover then have "takeWhile (\<lambda>b. \<not> P b) chunk ! j = chunk ! j" by (rule takeWhile_nth)
  ultimately have "\<not> P (chunk ! j)" by (metis nth_mem set_takeWhileD)
  then show "\<not> bit (movemask (map P chunk)) j" using assms(1) by (simp add: bit_movemask)
qed

lemma FindByteSse2_loop_eq:
  "i \<le> length data \<Longrightarrow>
   FindByteSse2_loop data needle i = i + length (takeWhile (\<lambda>b. b \<noteq> needle) (drop i data))"
proof (induction data needle i rule: FindByteSse2_loop.induct)
  case (1 data needle i)
  let ?chunk = "take 16 (drop i data)" and ?rest = "drop (i + 16) data"
  have split: "drop i data = ?chunk @ ?rest" by (metis append_take_drop_id drop_drop add.commute)
  show ?case
  proof (cases "i + 16 \<le> length data")
    case inside: True
    show ?thesis
    proof (cases "movemask (map (\<lambda>b. b = needle) ?chunk) = 0")
      case True
      then have none: "b \<noteq> needle" if "b \<in> set ?chunk" for b using that by (simp add: movemask_eq_0_iff)
      then have "takeWhile (\<lambda>b. b \<noteq> needle) (drop i data) = ?chunk @ takeWhile (\<lambda>b. b \<noteq> needle) ?rest"
        by (subst split) (simp add: takeWhile_append2)
      with True inside 1 show ?thesis by (subst FindByteSse2_loop.simps) (simp add: Let_def)
    next
      case False
      then obtain b where "b \<in> set ?chunk" "b = needle" by (auto simp: movemask_eq_0_iff)
      then have "takeWhile (\<lambda>b. b \<noteq> needle) (drop i data) = takeWhile (\<lambda>b. b \<noteq> needle) ?chunk"
        by (subst split) (simp add: takeWhile_append1)
      with False inside show ?thesis
        by (subst FindByteSse2_loop.simps) (simp add: Let_def ctz_movemask)
    qed
  next
    case False
    then show ?thesis by (subst FindByteSse2_loop.simps) (simp add: FindByteShortScalar_eq)
  qed
qed

lemma FindByte_eq: "FindByte data needle = length (takeWhile (\<lambda>b. b \<noteq> needle) data)"
  by (simp add: FindByte_def FindByteSse2_def FindByteSse2_loop_eq FindByteShortScalar_eq)

lemma map2_or_map: "map2 (\<or>) (map P xs) (map Q xs) = map (\<lambda>x. P x \<or> Q x) xs"
  by (induction xs) auto

lemma FindEitherByte_loop_eq:
  "i \<le> length data \<Longrightarrow>
   FindEitherByte_loop data a b i = i + length (takeWhile (\<lambda>x. x \<noteq> a \<and> x \<noteq> b) (drop i data))"
proof (induction data a b i rule: FindEitherByte_loop.induct)
  case (1 data a b i)
  let ?chunk = "take 16 (drop i data)" and ?rest = "drop (i + 16) data"
  let ?P = "\<lambda>x. x = a \<or> x = b"
  have split: "drop i data = ?chunk @ ?rest" by (metis append_take_drop_id drop_drop add.commute)
  consider "i + 16 \<le> length data" | "\<not> i + 16 \<le> length data" "i < length data"
    | "\<not> i + 16 \<le> length data" "\<not> i < length data" by blast
  then show ?case
  proof cases
    case inside: 1
    show ?thesis
    proof (cases "movemask (map ?P ?chunk) = 0")
      case True
      then have none: "\<not> ?P x" if "x \<in> set ?chunk" for x
        using that movemask_eq_0_iff [of ?chunk ?P] by simp
      then have "takeWhile (\<lambda>x. x \<noteq> a \<and> x \<noteq> b) (drop i data)
          = ?chunk @ takeWhile (\<lambda>x. x \<noteq> a \<and> x \<noteq> b) ?rest"
        by (subst split) (simp add: takeWhile_append2)
      with True inside "1.IH"(1) "1.prems" show ?thesis
        by (subst FindEitherByte_loop.simps) (simp add: Let_def map2_or_map)
    next
      case False
      then obtain x where "x \<in> set ?chunk" "?P x" using movemask_eq_0_iff [of ?chunk ?P] by auto
      then have "takeWhile (\<lambda>x. x \<noteq> a \<and> x \<noteq> b) (drop i data) = takeWhile (\<lambda>x. x \<noteq> a \<and> x \<noteq> b) ?chunk"
        by (subst split) (auto simp: takeWhile_append1)
      with False inside show ?thesis
        by (subst FindEitherByte_loop.simps) (simp add: Let_def ctz_movemask map2_or_map)
    qed
  next
    case 2
    then have "drop i data = data ! i # drop (i + 1) data" by (simp add: Cons_nth_drop_Suc)
    with 2 "1.IH"(2) show ?thesis by (subst FindEitherByte_loop.simps) auto
  next
    case 3
    then show ?thesis using "1.prems" by (subst FindEitherByte_loop.simps) simp
  qed
qed

lemma FindEitherByte_eq:
  "FindEitherByte data a b = length (takeWhile (\<lambda>x. x \<noteq> a \<and> x \<noteq> b) data)"
  by (simp add: FindEitherByte_def FindEitherByte_loop_eq)

subsection \<open>Checksums\<close>

text \<open>The scalar sum of the bytes, in 32-bit arithmetic.\<close>

definition byte_sum :: "bytes \<Rightarrow> u32" where
  "byte_sum data = sum_list (map ucast data)"

lemma byte_sum_simps [simp]:
  "byte_sum [] = 0" "byte_sum (b # bs) = ucast b + byte_sum bs" "byte_sum (xs @ ys) = byte_sum xs + byte_sum ys"
  by (simp_all add: byte_sum_def)

lemma unat_sum_u16:
  "length xs \<le> 8 \<Longrightarrow> unat (sum_list (map ucast xs) :: u16) = sum_list (map unat (xs :: u8 list))
    \<and> sum_list (map unat xs) \<le> 255 * length xs"
proof (induction xs)
  case (Cons x xs)
  then have "unat (sum_list (map ucast xs) :: u16) = sum_list (map unat xs)" "sum_list (map unat xs) \<le> 255 * length xs"
    by auto
  moreover have "unat (ucast x :: u16) = unat x" "unat x \<le> 255" using unat_lt_2p8 [of x] by (auto simp: unsigned_ucast_eq take_bit_eq_mod)
  ultimately show ?case using Cons.prems by (simp add: unat_word_ariths)
qed simp

lemma byte_sum_of_nat: "byte_sum xs = of_nat (sum_list (map unat xs))"
  by (induction xs) (auto simp: )

lemma sad_epu8_sum: "length chunk \<le> 16 \<Longrightarrow> ucast (fst (sad_epu8 chunk)) + ucast (snd (sad_epu8 chunk)) = byte_sum chunk"
proof -
  assume len: "length chunk \<le> 16"
  have half: "(ucast (sum_list (map ucast xs) :: u16) :: u32) = byte_sum xs" if "length xs \<le> 8" for xs :: bytes
  proof -
    have "(ucast (sum_list (map ucast xs) :: u16) :: u32) = of_nat (unat (sum_list (map ucast xs) :: u16))" by simp
    also have "\<dots> = of_nat (sum_list (map unat xs))" using unat_sum_u16 [OF that] by metis
    finally show ?thesis by (simp only: byte_sum_of_nat)
  qed
  have "byte_sum chunk = byte_sum (take 8 chunk) + byte_sum (drop 8 chunk)"
    by (metis append_take_drop_id byte_sum_simps(3))
  then show ?thesis using len by (simp add: sad_epu8_def half)
qed

lemma checksum_loop_eq:
  "i \<le> length data \<Longrightarrow> checksum_loop data i acc = acc + byte_sum (drop i data)"
proof (induction data i acc rule: checksum_loop.induct)
  case (1 data i acc)
  let ?chunk = "take 16 (drop i data)" and ?rest = "drop (i + 16) data"
  have split: "drop i data = ?chunk @ ?rest" by (metis append_take_drop_id drop_drop add.commute)
  consider "i + 16 \<le> length data" | "\<not> i + 16 \<le> length data" "i < length data"
    | "\<not> i + 16 \<le> length data" "\<not> i < length data" by blast
  then show ?case
  proof cases
    case 1
    have "byte_sum (drop i data) = byte_sum ?chunk + byte_sum ?rest" by (subst split) simp
    with 1 "1.IH"(1) show ?thesis by (subst checksum_loop.simps) (simp add: Let_def sad_epu8_sum)
  next
    case 2
    then have "drop i data = data ! i # drop (i + 1) data" by (simp add: Cons_nth_drop_Suc)
    with 2 "1.IH"(2) show ?thesis by (subst checksum_loop.simps) auto
  next
    case 3
    then show ?thesis using "1.prems" by (subst checksum_loop.simps) simp
  qed
qed

lemma ComputeChecksumSIMD_eq: "ComputeChecksumSIMD data = byte_sum data"
  by (simp add: ComputeChecksumSIMD_def checksum_loop_eq)


subsection \<open>Tags\<close>

lemma IsAggregateSessionEnvelopeTag_iff:
  "IsAggregateSessionEnvelopeTag tag \<longleftrightarrow>
     tag \<in> {8, 9, 10, 34, 35, 43, 49, 50, 52, 56, 57, 97, 115, 122, 128, 1128, 1137}"
  by (auto simp: IsAggregateSessionEnvelopeTag_def IsFrameStructureTag_def IsAggregateSessionHeaderTag_def
      ClassifySessionHeaderTag_def IsStandardSessionHeaderTag_def IsRoutingSessionHeaderTag_def)

lemma prefix_bytes:
  "kBeginStringPrefix = dec 8 @ [61]" "kBodyLengthPrefix = dec 9 @ [61]" "kCheckSumPrefix = dec 10 @ [61]"
  "kMsgSeqNumPrefix = dec 34 @ [61]" "kMsgTypePrefix = dec 35 @ [61]" "kPossResendPrefix = dec 97 @ [61]"
  "kSenderCompIDPrefix = dec 49 @ [61]" "kSenderSubIDPrefix = dec 50 @ [61]"
  "kSendingTimePrefix = dec 52 @ [61]" "kTargetCompIDPrefix = dec 56 @ [61]"
  "kTargetSubIDPrefix = dec 57 @ [61]" "kOnBehalfOfCompIDPrefix = dec 115 @ [61]"
  "kOrigSendingTimePrefix = dec 122 @ [61]" "kDeliverToCompIDPrefix = dec 128 @ [61]"
  "kApplVerIDPrefix = dec 1128 @ [61]" "kDefaultApplVerIDPrefix = dec 1137 @ [61]"
  "bytes_of ''43='' = dec 43 @ [61]"
  "kPossDupFlagYesField = dec 43 @ [61, 89]" "kPossResendYesField = dec 97 @ [61, 89]"
  by (simp_all add: bytes_of_def dec_ge)

section \<open>Properties\<close>

lemma length_dec: "n < 10 ^ Suc k \<Longrightarrow> length (dec n) \<le> Suc k"
proof (induction k arbitrary: n)
  case (Suc k)
  show ?case
  proof (cases "n < 10")
    case False
    have "n div 10 < 10 ^ Suc k" using Suc.prems by (simp add: less_mult_imp_div_less)
    with False Suc.IH show ?thesis by (simp add: dec_ge)
  qed simp
qed simp

text \<open>
  C20: The vectorised scans are equivalent to their scalar definitions: \<open>FindByte\<close> and
  \<open>FindEitherByte\<close> return the offset of the first match, or the length when there is none, and
  \<open>ComputeChecksumSIMD\<close> returns the sum of all bytes in 32-bit arithmetic, for every buffer length.
\<close>

theorem vectorised_scans_correct:
  "FindByte data needle = FindByteShortScalar data needle
   \<and> FindEitherByte data a b = length (takeWhile (\<lambda>x. x \<noteq> a \<and> x \<noteq> b) data)
   \<and> ComputeChecksumSIMD data = of_nat (sum_list (map unat data))"
  by (simp add: FindByte_eq FindByteShortScalar_eq FindEitherByte_eq ComputeChecksumSIMD_eq byte_sum_of_nat)

text \<open>
  C21: The fast integer formatters write canonical decimals within the buffer sizes their callers
  provide (10 and 20 characters), for every value including \<open>INT64_MIN\<close>, and the 32-bit output
  parses back to the number.
\<close>

theorem integer_formatting_correct:
  "FormatUint32 v = dec (unat v) \<and> length (FormatUint32 v) \<le> 10
   \<and> from_chars_u32 (FormatUint32 v) = Some (v, length (FormatUint32 v))
   \<and> FormatInt64 w = (if sint w < 0 then 45 # dec (nat (- sint w)) else dec (nat (sint w)))
   \<and> length (FormatInt64 w) \<le> 20"
proof -
  have "length (dec (unat v)) \<le> 10"
    using length_dec [of "unat v" 9] unat_lt_2p32 [of v] by simp
  moreover have "from_chars_u32 (dec (unat v)) = Some (v, length (dec (unat v)))"
    using from_chars_dec [of "unat v" "[]"] unat_lt_2p32 [of v] by simp
  moreover have "length (dec (nat \<bar>sint w\<bar>)) \<le> 19"
    using length_dec [of "nat \<bar>sint w\<bar>" 18] sint_ge [of w] sint_lt [of w] by simp
  ultimately show ?thesis by (auto simp: FormatUint32_eq FormatInt64_eq)
qed

end
