(* ===== verification/Raw_Passthrough.thy ===== *)
theory Raw_Passthrough
  imports Wire_Format
begin

text \<open>
  \<^verbatim>\<open>codec/raw_passthrough.{h,cpp}\<close>: the header-only decoder used for replay and forwarding,
  and the three encoders that splice an unparsed application body between a new session header
  and a new trailer. Offsets into a frame are naturals. A \<^verbatim>\<open>subspan\<close> whose range leaves its
  span is undefined behaviour in C++; it is the value \<^const>\<open>None\<close> here, so every claim that a
  decode returns also says that it stays inside the frame.
\<close>

section \<open>Records\<close>

abbreviation kFixSoh :: u8 where "kFixSoh \<equiv> 1"

record RawPassThroughView =
  rp_begin_string :: bytes
  rp_msg_type :: bytes
  rp_msg_seq_num :: u32
  rp_sender_comp_id :: bytes
  rp_sender_sub_id :: bytes
  rp_target_comp_id :: bytes
  rp_target_sub_id :: bytes
  rp_on_behalf_of_comp_id :: bytes
  rp_deliver_to_comp_id :: bytes
  rp_default_appl_ver_id :: bytes
  rp_appl_ver_id :: bytes
  rp_sending_time :: bytes
  rp_orig_sending_time :: bytes
  rp_poss_dup :: bool
  rp_poss_resend :: bool
  rp_raw_body :: bytes
  rp_body_start_offset :: u32
  rp_raw_message :: bytes
  rp_valid :: bool

definition RawPassThroughView_new :: RawPassThroughView where
  "RawPassThroughView_new =
     \<lparr> rp_begin_string = [], rp_msg_type = [], rp_msg_seq_num = 0, rp_sender_comp_id = [], rp_sender_sub_id = [],
       rp_target_comp_id = [], rp_target_sub_id = [], rp_on_behalf_of_comp_id = [], rp_deliver_to_comp_id = [],
       rp_default_appl_ver_id = [], rp_appl_ver_id = [], rp_sending_time = [], rp_orig_sending_time = [],
       rp_poss_dup = False, rp_poss_resend = False, rp_raw_body = [], rp_body_start_offset = 0,
       rp_raw_message = [], rp_valid = False \<rparr>"

record ForwardingOptions =
  fo_sender_comp_id :: bytes
  fo_sender_sub_id :: bytes
  fo_target_comp_id :: bytes
  fo_target_sub_id :: bytes
  fo_msg_seq_num :: u32
  fo_sending_time :: bytes
  fo_begin_string :: bytes
  fo_on_behalf_of_comp_id :: bytes
  fo_deliver_to_comp_id :: bytes
  fo_poss_dup :: bool
  fo_poss_resend :: bool
  fo_orig_sending_time :: bytes
  fo_delimiter :: u8

record ReplayOptions =
  ro_sender_comp_id :: bytes
  ro_sender_sub_id :: bytes
  ro_target_comp_id :: bytes
  ro_target_sub_id :: bytes
  ro_begin_string :: bytes
  ro_default_appl_ver_id :: bytes
  ro_appl_ver_id :: bytes
  ro_on_behalf_of_comp_id :: bytes
  ro_deliver_to_comp_id :: bytes
  ro_msg_seq_num :: u32
  ro_sending_time :: bytes
  ro_orig_sending_time :: bytes
  ro_poss_resend :: bool
  ro_delimiter :: u8
  ro_zero_copy_body :: bool

text \<open>
  \<^verbatim>\<open>EncodedFrameBytes\<close> of \<^verbatim>\<open>session/encoded_frame.h\<close>. The inline array and the overflow vector
  are kept apart; the inline array is its first \<open>inline_size\<close> bytes.
\<close>

abbreviation kEncodedFrameInlineCapacity :: nat where "kEncodedFrameInlineCapacity \<equiv> 768"

record EncodedFrameBytes =
  ef_inline_storage :: bytes
  ef_overflow_storage :: bytes
  ef_external_body :: bytes
  ef_body_splice_offset :: nat

definition EncodedFrameBytes_new :: EncodedFrameBytes where
  "EncodedFrameBytes_new =
     \<lparr> ef_inline_storage = [], ef_overflow_storage = [], ef_external_body = [], ef_body_splice_offset = 0 \<rparr>"

definition frame_assign :: "bytes \<Rightarrow> EncodedFrameBytes" where
  "frame_assign bs =
     (if length bs \<le> kEncodedFrameInlineCapacity
      then EncodedFrameBytes_new\<lparr> ef_inline_storage := bs \<rparr>
      else EncodedFrameBytes_new\<lparr> ef_overflow_storage := bs \<rparr>)"

definition frame_view :: "EncodedFrameBytes \<Rightarrow> bytes" where
  "frame_view f = (if ef_overflow_storage f \<noteq> [] then ef_overflow_storage f else ef_inline_storage f)"

definition frame_size :: "EncodedFrameBytes \<Rightarrow> nat" where
  "frame_size f =
     (if ef_overflow_storage f = [] then length (ef_inline_storage f) else length (ef_overflow_storage f))
     + length (ef_external_body f)"

section \<open>Decoding\<close>

definition ParseUint32 :: "bytes \<Rightarrow> u32" where
  "ParseUint32 text =
     (case from_chars_u32 text of
        None \<Rightarrow> 0
      | Some (v, used) \<Rightarrow> if used \<noteq> length text then 0 else v)"

definition ParseBoolean :: "bytes \<Rightarrow> bool" where
  "ParseBoolean text \<longleftrightarrow> text = bytes_of ''Y''"

definition ValueView :: "bytes \<Rightarrow> nat \<Rightarrow> nat \<Rightarrow> bytes" where
  "ValueView data off len = take len (drop off data)"

record ScannedField =
  sf_tag :: u32
  sf_value_offset :: nat
  sf_value_length :: nat
  sf_next_pos :: nat

definition no_field :: ScannedField where
  "no_field = \<lparr> sf_tag = 0, sf_value_offset = 0, sf_value_length = 0, sf_next_pos = 0 \<rparr>"

definition ScanField :: "bytes \<Rightarrow> nat \<Rightarrow> u8 \<Rightarrow> ScannedField" where
  "ScanField data pos delim =
     (if pos \<ge> length data then no_field
      else let soh_idx = pos + FindByte (drop pos data) delim
      in if soh_idx \<ge> length data \<or> soh_idx = pos then no_field
      else let field_len = soh_idx - pos; eq_off = FindByte (take field_len (drop pos data)) 61
      in if eq_off \<ge> field_len \<or> eq_off = 0 then no_field
      else case from_chars_u32 (take eq_off (drop pos data)) of
             None \<Rightarrow> no_field
           | Some (tag, used) \<Rightarrow>
               if used \<noteq> eq_off then no_field
               else \<lparr> sf_tag = tag, sf_value_offset = pos + eq_off + 1,
                      sf_value_length = field_len - eq_off - 1, sf_next_pos = soh_idx + 1 \<rparr>)"

definition IsSessionHeaderTag :: "u32 \<Rightarrow> bool" where
  "IsSessionHeaderTag tag \<longleftrightarrow> IsAggregateSessionEnvelopeTag tag"

text \<open>The switch over the header tags.\<close>

definition assign_header :: "u32 \<Rightarrow> bytes \<Rightarrow> RawPassThroughView \<Rightarrow> RawPassThroughView" where
  "assign_header tag val view =
     (if tag = kMsgType then view\<lparr> rp_msg_type := val \<rparr>
      else if tag = kMsgSeqNum then view\<lparr> rp_msg_seq_num := ParseUint32 val \<rparr>
      else if tag = kSenderCompID then view\<lparr> rp_sender_comp_id := val \<rparr>
      else if tag = kSenderSubID then view\<lparr> rp_sender_sub_id := val \<rparr>
      else if tag = kTargetCompID then view\<lparr> rp_target_comp_id := val \<rparr>
      else if tag = kTargetSubID then view\<lparr> rp_target_sub_id := val \<rparr>
      else if tag = kOnBehalfOfCompID then view\<lparr> rp_on_behalf_of_comp_id := val \<rparr>
      else if tag = kDeliverToCompID then view\<lparr> rp_deliver_to_comp_id := val \<rparr>
      else if tag = kDefaultApplVerID then view\<lparr> rp_default_appl_ver_id := val \<rparr>
      else if tag = kApplVerID then view\<lparr> rp_appl_ver_id := val \<rparr>
      else if tag = kSendingTime then view\<lparr> rp_sending_time := val \<rparr>
      else if tag = kOrigSendingTime then view\<lparr> rp_orig_sending_time := val \<rparr>
      else if tag = kPossDupFlag then view\<lparr> rp_poss_dup := ParseBoolean val \<rparr>
      else if tag = kPossResend then view\<lparr> rp_poss_resend := ParseBoolean val \<rparr>
      else view)"

lemma ScanField_next: "ScanField data pos delim \<noteq> no_field \<Longrightarrow>
    pos < sf_next_pos (ScanField data pos delim) \<and> sf_next_pos (ScanField data pos delim) \<le> length data"
  by (auto simp: ScanField_def Let_def split: option.splits prod.splits if_splits)

text \<open>
  The header loop: \<open>known\<close> tells whether the caller passed a stored body offset; the result is the
  end of the last header field and the view.
\<close>

function header_loop ::
    "bytes \<Rightarrow> u8 \<Rightarrow> bool \<Rightarrow> nat \<Rightarrow> nat \<Rightarrow> nat \<Rightarrow> RawPassThroughView \<Rightarrow> (nat \<times> RawPassThroughView) Result" where
  "header_loop data delim known scan_end pos last_header_end view =
     (if pos < scan_end then
        (let f = ScanField data pos delim
         in if sf_tag f = 0 \<and> sf_next_pos f = 0 then Inl (FormatError ''malformed FIX field'')
         else if \<not> IsSessionHeaderTag (sf_tag f) then
           (if known then
              Inl (FormatError ''stored body_start_offset does not align with a FIX body boundary'')
            else Inr (last_header_end, view))
         else
           header_loop data delim known scan_end (sf_next_pos f) (sf_next_pos f)
             (assign_header (sf_tag f) (ValueView data (sf_value_offset f) (sf_value_length f)) view))
      else Inr (last_header_end, view))"
  by auto
termination
proof (relation "measure (\<lambda>(data, _, _, _, pos, _, _). length data - pos)", goal_cases)
  case (2 data delim known scan_end pos last_header_end view f)
  then have "f \<noteq> no_field" by (auto simp: no_field_def)
  with 2 ScanField_next [of data pos delim] show ?case by auto
qed auto

declare header_loop.simps [simp del]

text \<open>\<^verbatim>\<open>span::subspan(offset, count)\<close>, defined only inside the span.\<close>

definition subspan :: "bytes \<Rightarrow> nat \<Rightarrow> nat \<Rightarrow> bytes option" where
  "subspan data off count = (if off + count \<le> length data then Some (take count (drop off data)) else None)"

text \<open>Subtraction of \<^verbatim>\<open>size_t\<close> values.\<close>

definition size_sub :: "nat \<Rightarrow> nat \<Rightarrow> nat" where
  "size_sub a b = (if b \<le> a then a - b else a + 2 ^ 64 - b)"

definition DecodeRawPassThroughImpl ::
    "bytes \<Rightarrow> u32 option \<Rightarrow> u8 \<Rightarrow> bool \<Rightarrow> RawPassThroughView Result option" where
  "DecodeRawPassThroughImpl data known delimiter verify_checksum =
     (let delim = (if delimiter = 0 then kFixSoh else delimiter);
          view = RawPassThroughView_new\<lparr> rp_raw_message := data \<rparr>;
          f = ScanField data 0 delim
      in if sf_tag f \<noteq> kBeginString then Some (Inl (FormatError ''FIX frame must begin with tag 8''))
      else let view = view\<lparr> rp_begin_string := ValueView data (sf_value_offset f) (sf_value_length f) \<rparr>;
               f = ScanField data (sf_next_pos f) delim
      in if sf_tag f \<noteq> kBodyLength then Some (Inl (FormatError ''FIX frame must have tag 9 after tag 8''))
      else let declared_body_length = ParseUint32 (ValueView data (sf_value_offset f) (sf_value_length f));
               session_prefix_end = sf_next_pos f
      in if length data < 7 then Some (Inl (FormatError ''FIX frame too short for CheckSum''))
      else if 49 \<noteq> data ! (length data - 7) \<or> 48 \<noteq> data ! (length data - 6) \<or> 61 \<noteq> data ! (length data - 5) \<or>
              delim \<noteq> data ! (length data - 1) then
        Some (Inl (FormatError ''FIX frame missing CheckSum (tag 10)''))
      else let checksum_field_start = length data - 7
      in if verify_checksum \<and>
            byte_sum (take checksum_field_start data) mod 256 \<noteq> ParseUint32 (ValueView data (length data - 4) 3) then
        Some (Inl (FormatError ''CheckSum mismatch''))
      else let actual_body_length = size_sub checksum_field_start session_prefix_end
      in if unat declared_body_length \<noteq> actual_body_length then Some (Inl (FormatError ''BodyLength mismatch''))
      else let scan_end = (case known of None \<Rightarrow> checksum_field_start | Some off \<Rightarrow> unat off)
      in if scan_end < session_prefix_end \<or> scan_end > checksum_field_start then
        Some (Inl (FormatError ''stored body_start_offset is outside the FIX body''))
      else case header_loop data delim (known \<noteq> None) scan_end session_prefix_end session_prefix_end view of
        Inl e \<Rightarrow> Some (Inl e)
      | Inr (last_header_end, view) \<Rightarrow>
          (let body_start_offset = (case known of None \<Rightarrow> of_nat last_header_end | Some off \<Rightarrow> off)
           in case subspan data (unat body_start_offset) (size_sub checksum_field_start (unat body_start_offset)) of
                None \<Rightarrow> None
              | Some body \<Rightarrow>
                  Some (Inr (view\<lparr> rp_raw_body := body, rp_body_start_offset := body_start_offset,
                                   rp_valid := True \<rparr>))))"

definition DecodeRawPassThrough :: "bytes \<Rightarrow> u8 \<Rightarrow> bool \<Rightarrow> RawPassThroughView Result option" where
  "DecodeRawPassThrough data delimiter verify_checksum =
     DecodeRawPassThroughImpl data None delimiter verify_checksum"

definition DecodeRawPassThrough_at :: "bytes \<Rightarrow> u32 \<Rightarrow> u8 \<Rightarrow> bool \<Rightarrow> RawPassThroughView Result option" where
  "DecodeRawPassThrough_at data body_start_offset delimiter verify_checksum =
     DecodeRawPassThroughImpl data (Some body_start_offset) delimiter verify_checksum"

section \<open>Encoding\<close>

definition AppendStringField :: "bytes \<Rightarrow> bytes \<Rightarrow> bytes \<Rightarrow> u8 \<Rightarrow> bytes" where
  "AppendStringField out prefix value delimiter = out @ prefix @ value @ [delimiter]"

definition AppendCountField :: "bytes \<Rightarrow> bytes \<Rightarrow> u32 \<Rightarrow> u8 \<Rightarrow> bytes" where
  "AppendCountField out prefix value delimiter = out @ prefix @ FormatUint32 value @ [delimiter]"

definition AppendOptionalFlagField :: "bytes \<Rightarrow> bytes \<Rightarrow> bool \<Rightarrow> u8 \<Rightarrow> bytes" where
  "AppendOptionalFlagField out prefix enabled delimiter =
     (if \<not> enabled then out else out @ prefix @ bytes_of ''Y'' @ [delimiter])"

text \<open>An optional string field, appended when its value is not empty.\<close>

definition append_unless_empty :: "bytes \<Rightarrow> bytes \<Rightarrow> bytes \<Rightarrow> u8 \<Rightarrow> bytes" where
  "append_unless_empty out prefix value delimiter =
     (if value \<noteq> [] then AppendStringField out prefix value delimiter else out)"

definition ResolveReplayString :: "bytes \<Rightarrow> bytes \<Rightarrow> bytes" where
  "ResolveReplayString preferred fallback = (if preferred = [] then fallback else preferred)"

definition ResolveReplayDefaultApplVerID :: "RawPassThroughView \<Rightarrow> ReplayOptions \<Rightarrow> bytes" where
  "ResolveReplayDefaultApplVerID stored opts =
     (if ro_default_appl_ver_id opts \<noteq> [] then ro_default_appl_ver_id opts
      else if rp_msg_type stored = bytes_of ''A'' then rp_default_appl_ver_id stored
      else [])"

definition CountStringFieldBytes :: "bytes \<Rightarrow> bytes \<Rightarrow> nat" where
  "CountStringFieldBytes prefix value = length prefix + length value + 1"

definition CountLiteralFieldBytes :: "bytes \<Rightarrow> nat" where
  "CountLiteralFieldBytes literal = length literal + 1"

definition CountUintFieldBytes :: "bytes \<Rightarrow> u32 \<Rightarrow> nat" where
  "CountUintFieldBytes prefix value = length prefix + length (FormatUint32 value) + 1"

abbreviation kBodyLengthPlaceholderWidth :: nat where "kBodyLengthPlaceholderWidth \<equiv> 7"

text \<open>The three checksum digits of the trailer.\<close>

definition checksum_digits :: "u32 \<Rightarrow> bytes" where
  "checksum_digits checksum =
     [48 + ucast ((checksum div 100) mod 10), 48 + ucast ((checksum div 10) mod 10), 48 + ucast (checksum mod 10)]"

text \<open>
  The common tail of the encoders that write a placeholder: \<open>out\<close> holds the frame up to the body
  with the seven placeholder characters at \<open>body_length_offset\<close>; \<^verbatim>\<open>string::replace\<close> puts the
  shorter decimal in their place.
\<close>

definition finish_frame :: "string \<Rightarrow> bytes \<Rightarrow> nat \<Rightarrow> nat \<Rightarrow> u8 \<Rightarrow> bytes Result" where
  "finish_frame msg out body_length_offset body_start soh =
     (let body_length = of_nat (length out - body_start) :: u32; digits = FormatUint32 body_length
      in if length digits > kBodyLengthPlaceholderWidth then Inl (FormatError msg)
         else let out = take body_length_offset out @ digits @ drop (body_length_offset + kBodyLengthPlaceholderWidth) out;
                  checksum = byte_sum out mod 256
              in Inr (out @ kCheckSumPrefix @ checksum_digits checksum @ [soh]))"

definition EncodeForwarded :: "RawPassThroughView \<Rightarrow> ForwardingOptions \<Rightarrow> bytes Result" where
  "EncodeForwarded inbound opts =
     (if \<not> rp_valid inbound then Inl (InvalidArgument ''inbound view is not valid'')
      else
        let soh = (if fo_delimiter opts = 0 then kFixSoh else fo_delimiter opts);
            begin_string = (if fo_begin_string opts = [] then rp_begin_string inbound else fo_begin_string opts);
            out = kBeginStringPrefix @ begin_string @ [soh];
            out = out @ kBodyLengthPrefix;
            body_length_offset = length out;
            out = out @ replicate kBodyLengthPlaceholderWidth 48 @ [soh];
            body_start = length out;
            out = AppendStringField out kMsgTypePrefix (rp_msg_type inbound) soh;
            out = AppendCountField out kMsgSeqNumPrefix (fo_msg_seq_num opts) soh;
            out = AppendStringField out kSenderCompIDPrefix (fo_sender_comp_id opts) soh;
            out = append_unless_empty out kSenderSubIDPrefix (fo_sender_sub_id opts) soh;
            out = AppendStringField out kTargetCompIDPrefix (fo_target_comp_id opts) soh;
            out = append_unless_empty out kTargetSubIDPrefix (fo_target_sub_id opts) soh;
            out = AppendStringField out kSendingTimePrefix (fo_sending_time opts) soh;
            out = AppendOptionalFlagField out (bytes_of ''43='') (fo_poss_dup opts) soh;
            out = AppendOptionalFlagField out kPossResendPrefix (fo_poss_resend opts) soh;
            out = append_unless_empty out kOrigSendingTimePrefix (fo_orig_sending_time opts) soh;
            out = append_unless_empty out kOnBehalfOfCompIDPrefix (fo_on_behalf_of_comp_id opts) soh;
            out = append_unless_empty out kDeliverToCompIDPrefix (fo_deliver_to_comp_id opts) soh;
            out = out @ rp_raw_body inbound
        in finish_frame ''BodyLength exceeds placeholder width'' out body_length_offset body_start soh)"

definition EncodeReplay :: "RawPassThroughView \<Rightarrow> ReplayOptions \<Rightarrow> bytes Result" where
  "EncodeReplay stored opts =
     (if \<not> rp_valid stored then Inl (InvalidArgument ''stored view is not valid'')
      else
        let soh = (if ro_delimiter opts = 0 then kFixSoh else ro_delimiter opts);
            begin_string = (if ro_begin_string opts = [] then rp_begin_string stored else ro_begin_string opts);
            out = kBeginStringPrefix @ begin_string @ [soh];
            out = out @ kBodyLengthPrefix;
            body_length_offset = length out;
            out = out @ replicate kBodyLengthPlaceholderWidth 48 @ [soh];
            body_start = length out;
            replay_default_appl_ver_id = ResolveReplayDefaultApplVerID stored opts;
            replay_sender_sub_id = ResolveReplayString (ro_sender_sub_id opts) (rp_sender_sub_id stored);
            replay_target_sub_id = ResolveReplayString (ro_target_sub_id opts) (rp_target_sub_id stored);
            replay_appl_ver_id = ResolveReplayString (ro_appl_ver_id opts) (rp_appl_ver_id stored);
            replay_on_behalf_of = ResolveReplayString (ro_on_behalf_of_comp_id opts) (rp_on_behalf_of_comp_id stored);
            replay_deliver_to = ResolveReplayString (ro_deliver_to_comp_id opts) (rp_deliver_to_comp_id stored);
            out = AppendStringField out kMsgTypePrefix (rp_msg_type stored) soh;
            out = AppendCountField out kMsgSeqNumPrefix (ro_msg_seq_num opts) soh;
            out = AppendStringField out kSenderCompIDPrefix (ro_sender_comp_id opts) soh;
            out = append_unless_empty out kSenderSubIDPrefix replay_sender_sub_id soh;
            out = AppendStringField out kTargetCompIDPrefix (ro_target_comp_id opts) soh;
            out = append_unless_empty out kTargetSubIDPrefix replay_target_sub_id soh;
            out = AppendStringField out kSendingTimePrefix (ro_sending_time opts) soh;
            out = append_unless_empty out kDefaultApplVerIDPrefix replay_default_appl_ver_id soh;
            out = append_unless_empty out kApplVerIDPrefix replay_appl_ver_id soh;
            out = AppendOptionalFlagField out (bytes_of ''43='') True soh;
            out = AppendOptionalFlagField out kPossResendPrefix (ro_poss_resend opts) soh;
            out = append_unless_empty out kOrigSendingTimePrefix (ro_orig_sending_time opts) soh;
            out = append_unless_empty out kOnBehalfOfCompIDPrefix replay_on_behalf_of soh;
            out = append_unless_empty out kDeliverToCompIDPrefix replay_deliver_to soh;
            out = out @ rp_raw_body stored
        in finish_frame ''BodyLength exceeds placeholder width'' out body_length_offset body_start soh)"

text \<open>
  The zero-copy encoder. The buffer contents and the running header checksum are the pair the two
  append closures update. The buffer is sized in advance and written without bounds checks, so
  writing more than its capacity is the undefined value \<^const>\<open>None\<close>.
\<close>

definition append_sv :: "bytes \<Rightarrow> bytes \<times> u32 \<Rightarrow> bytes \<times> u32" where
  "append_sv sv st = (fst st @ sv, snd st + byte_sum sv)"

definition append_char :: "u8 \<Rightarrow> bytes \<times> u32 \<Rightarrow> bytes \<times> u32" where
  "append_char ch st = (fst st @ [ch], snd st + ucast ch)"

definition append_field :: "bytes \<Rightarrow> bytes \<Rightarrow> u8 \<Rightarrow> bytes \<times> u32 \<Rightarrow> bytes \<times> u32" where
  "append_field prefix value soh st = append_char soh (append_sv value (append_sv prefix st))"

definition append_field_unless_empty :: "bytes \<Rightarrow> bytes \<Rightarrow> u8 \<Rightarrow> bytes \<times> u32 \<Rightarrow> bytes \<times> u32" where
  "append_field_unless_empty prefix value soh st = (if value \<noteq> [] then append_field prefix value soh st else st)"

definition count_unless_empty :: "bytes \<Rightarrow> bytes \<Rightarrow> nat" where
  "count_unless_empty prefix value = (if value = [] then 0 else CountStringFieldBytes prefix value)"

definition EncodeReplayInto :: "RawPassThroughView \<Rightarrow> ReplayOptions \<Rightarrow> EncodedFrameBytes Result option" where
  "EncodeReplayInto stored opts =
     (if \<not> rp_valid stored then Some (Inl (InvalidArgument ''stored view is not valid''))
      else
        let soh = (if ro_delimiter opts = 0 then kFixSoh else ro_delimiter opts);
            replay_default_appl_ver_id = ResolveReplayDefaultApplVerID stored opts;
            replay_sender_sub_id = ResolveReplayString (ro_sender_sub_id opts) (rp_sender_sub_id stored);
            replay_target_sub_id = ResolveReplayString (ro_target_sub_id opts) (rp_target_sub_id stored);
            replay_appl_ver_id = ResolveReplayString (ro_appl_ver_id opts) (rp_appl_ver_id stored);
            replay_on_behalf_of = ResolveReplayString (ro_on_behalf_of_comp_id opts) (rp_on_behalf_of_comp_id stored);
            replay_deliver_to = ResolveReplayString (ro_deliver_to_comp_id opts) (rp_deliver_to_comp_id stored);
            begin_string = (if ro_begin_string opts = [] then rp_begin_string stored else ro_begin_string opts);
            body_bytes = length (rp_raw_body stored);
            body_length = of_nat (
              CountStringFieldBytes kMsgTypePrefix (rp_msg_type stored) +
              CountUintFieldBytes kMsgSeqNumPrefix (ro_msg_seq_num opts) +
              CountStringFieldBytes kSenderCompIDPrefix (ro_sender_comp_id opts) +
              count_unless_empty kSenderSubIDPrefix replay_sender_sub_id +
              CountStringFieldBytes kTargetCompIDPrefix (ro_target_comp_id opts) +
              count_unless_empty kTargetSubIDPrefix replay_target_sub_id +
              CountStringFieldBytes kSendingTimePrefix (ro_sending_time opts) +
              count_unless_empty kDefaultApplVerIDPrefix replay_default_appl_ver_id +
              count_unless_empty kApplVerIDPrefix replay_appl_ver_id +
              CountLiteralFieldBytes (bytes_of ''43=Y'') +
              (if ro_poss_resend opts then CountLiteralFieldBytes (bytes_of ''97=Y'') else 0) +
              count_unless_empty kOrigSendingTimePrefix (ro_orig_sending_time opts) +
              count_unless_empty kOnBehalfOfCompIDPrefix replay_on_behalf_of +
              count_unless_empty kDeliverToCompIDPrefix replay_deliver_to + body_bytes) :: u32;
            encoded_buffer_size =
              (CountStringFieldBytes kBeginStringPrefix begin_string + CountUintFieldBytes kBodyLengthPrefix body_length +
               size_sub (unat body_length) body_bytes + (if ro_zero_copy_body opts then 0 else body_bytes) + 7) mod 2 ^ 64;
            capacity = (if encoded_buffer_size \<le> kEncodedFrameInlineCapacity then kEncodedFrameInlineCapacity
                        else encoded_buffer_size);
            st = ([], 0);
            st = append_field kBeginStringPrefix begin_string soh st;
            st = append_field kBodyLengthPrefix (FormatUint32 body_length) soh st;
            st = append_field kMsgTypePrefix (rp_msg_type stored) soh st;
            st = append_field kMsgSeqNumPrefix (FormatUint32 (ro_msg_seq_num opts)) soh st;
            st = append_field kSenderCompIDPrefix (ro_sender_comp_id opts) soh st;
            st = append_field_unless_empty kSenderSubIDPrefix replay_sender_sub_id soh st;
            st = append_field kTargetCompIDPrefix (ro_target_comp_id opts) soh st;
            st = append_field_unless_empty kTargetSubIDPrefix replay_target_sub_id soh st;
            st = append_field kSendingTimePrefix (ro_sending_time opts) soh st;
            st = append_field_unless_empty kDefaultApplVerIDPrefix replay_default_appl_ver_id soh st;
            st = append_field_unless_empty kApplVerIDPrefix replay_appl_ver_id soh st;
            st = append_char soh (append_sv (bytes_of ''43=Y'') st);
            st = (if ro_poss_resend opts then append_char soh (append_sv (bytes_of ''97=Y'') st) else st);
            st = append_field_unless_empty kOrigSendingTimePrefix (ro_orig_sending_time opts) soh st;
            st = append_field_unless_empty kOnBehalfOfCompIDPrefix replay_on_behalf_of soh st;
            st = append_field_unless_empty kDeliverToCompIDPrefix replay_deliver_to soh st;
            body_checksum = (if body_bytes > 0 then ComputeChecksumSIMD (rp_raw_body stored) else 0);
            buf = (if ro_zero_copy_body opts then fst st else fst st @ rp_raw_body stored);
            splice_offset = (if ro_zero_copy_body opts then length (fst st) else 0);
            checksum = (snd st + body_checksum) mod 256;
            buf = buf @ kCheckSumPrefix @ checksum_digits checksum @ [soh];
            out = (if encoded_buffer_size \<le> kEncodedFrameInlineCapacity
                   then EncodedFrameBytes_new\<lparr> ef_inline_storage := buf \<rparr>
                   else EncodedFrameBytes_new\<lparr> ef_overflow_storage := buf \<rparr>)
        in if length buf > capacity then None
           else Some (Inr (if ro_zero_copy_body opts \<and> body_bytes > 0
                           then out\<lparr> ef_external_body := rp_raw_body stored, ef_body_splice_offset := splice_offset \<rparr>
                           else out\<lparr> ef_external_body := [], ef_body_splice_offset := 0 \<rparr>)))"


section \<open>Fields on the wire\<close>

text \<open>A field: the digits of its tag, the equals sign, its value and the delimiter.\<close>

definition wire_field :: "u8 \<Rightarrow> nat \<times> bytes \<Rightarrow> bytes" where
  "wire_field delim tv = dec (fst tv) @ [61] @ snd tv @ [delim]"

definition wire_fields :: "u8 \<Rightarrow> (nat \<times> bytes) list \<Rightarrow> bytes" where
  "wire_fields delim fs = concat (map (wire_field delim) fs)"

lemma wire_fields_simps [simp]:
  "wire_fields delim [] = []" "wire_fields delim (f # fs) = wire_field delim f @ wire_fields delim fs"
  "wire_fields delim (fs @ gs) = wire_fields delim fs @ wire_fields delim gs"
  by (simp_all add: wire_fields_def)

definition tag_text :: "bytes \<Rightarrow> bool" where
  "tag_text ds \<longleftrightarrow> ds \<noteq> [] \<and> (\<forall>c\<in>set ds. is_digit c) \<and> digits_value ds < 2 ^ 32"

lemma tag_text_dec: "n < 2 ^ 32 \<Longrightarrow> tag_text (dec n)"
  by (simp add: tag_text_def is_digit_dec)

lemma tag_text_no_eq: "tag_text ds \<Longrightarrow> 61 \<notin> set ds"
  by (auto simp: tag_text_def is_digit_def)

lemma from_chars_tag_text: "tag_text ds \<Longrightarrow> from_chars_u32 ds = Some (of_nat (digits_value ds), length ds)"
  by (auto simp: tag_text_def from_chars_u32_def takeWhile_eq_all_conv [THEN iffD2])

lemma ScanField_intro:
  assumes "drop pos data = ds @ 61 # v @ delim # rest" and "tag_text ds"
    and "delim \<notin> set ds" "delim \<notin> set v" "delim \<noteq> 61"
  shows "ScanField data pos delim =
     \<lparr> sf_tag = of_nat (digits_value ds), sf_value_offset = pos + length ds + 1, sf_value_length = length v,
       sf_next_pos = pos + length ds + length v + 2 \<rparr>"
proof -
  have data: "length data = pos + length ds + length v + length rest + 2"
  proof -
    have "length (drop pos data) = length ds + length v + length rest + 2" unfolding assms(1) by simp
    then show ?thesis by simp
  qed
  have n: "FindByte (drop pos data) delim = length ds + length v + 1"
    unfolding FindByte_eq assms(1) using assms(3-5) by (simp add: takeWhile_append2 takeWhile_append)
  have fld: "take (length ds + length v + 1) (drop pos data) = ds @ 61 # v" unfolding assms(1) by simp
  have e: "FindByte (ds @ 61 # v) 61 = length ds"
    unfolding FindByte_eq using tag_text_no_eq [OF assms(2)] by (auto simp: takeWhile_append)
  have "take (length ds) (drop pos data) = ds" unfolding assms(1) by simp
  moreover have "ds \<noteq> []" using assms(2) by (simp add: tag_text_def)
  ultimately show ?thesis
    using data fld by (simp add: ScanField_def Let_def n e from_chars_tag_text assms(2))
qed

lemma ScanField_elim:
  assumes "ScanField data pos delim \<noteq> no_field"
  obtains ds v rest where "drop pos data = ds @ 61 # v @ delim # rest" "tag_text ds"
    "delim \<notin> set ds" "delim \<notin> set v" "delim \<noteq> 61"
    "ScanField data pos delim =
       \<lparr> sf_tag = of_nat (digits_value ds), sf_value_offset = pos + length ds + 1, sf_value_length = length v,
         sf_next_pos = pos + length ds + length v + 2 \<rparr>"
proof -
  define x n where "x = drop pos data" and "n = FindByte x delim"
  define fld where "fld = take n x"
  define e where "e = FindByte fld 61"
  have sf: "ScanField data pos delim =
     (if length data \<le> pos \<or> length data \<le> pos + n \<or> n = 0 \<or> n \<le> e \<or> e = 0 then no_field
      else case from_chars_u32 (take e x) of None \<Rightarrow> no_field
           | Some (tag, used) \<Rightarrow>
               if used \<noteq> e then no_field
               else \<lparr> sf_tag = tag, sf_value_offset = pos + e + 1, sf_value_length = n - e - 1, sf_next_pos = pos + n + 1 \<rparr>)"
    unfolding ScanField_def Let_def e_def fld_def n_def x_def add_diff_cancel_left' by simp
  have 1: "pos < length data" "n < length x" "n \<noteq> 0" "e < n" "e \<noteq> 0"
    using assms unfolding sf by (auto simp: x_def split: if_splits)
  have tag: "\<exists>t. from_chars_u32 (take e x) = Some (t, e)"
    using assms unfolding sf by (auto split: if_splits option.splits)
  have ln: "n = length (takeWhile (\<lambda>b. b \<noteq> delim) x)" by (simp add: n_def FindByte_eq)
  have "fld = takeWhile (\<lambda>b. b \<noteq> delim) x" unfolding fld_def ln by (rule takeWhile_eq_take [symmetric])
  moreover have "x ! n = delim" using 1(2) nth_length_takeWhile [of "\<lambda>b. b \<noteq> delim" x] by (simp add: ln)
  ultimately have nt: "fld = takeWhile (\<lambda>b. b \<noteq> delim) x" "x ! n = delim" .
  have lt: "length fld = n" using 1 by (simp add: fld_def)
  have et: "fld ! e = 61" using 1 lt nth_length_takeWhile [of "\<lambda>b. b \<noteq> 61" fld] by (simp add: e_def FindByte_eq)
  define ds v rest where "ds = take e fld" and "v = drop (Suc e) fld" and "rest = drop (Suc n) x"
  have x: "x = fld @ delim # rest" using 1 nt(2) by (metis fld_def rest_def id_take_nth_drop)
  have t: "fld = ds @ 61 # v" using 1 lt et by (metis ds_def v_def id_take_nth_drop)
  have dx: "take e x = ds" using 1 by (simp add: ds_def fld_def min_def)
  have nd: "delim \<notin> set fld" unfolding nt(1) by (auto dest: set_takeWhileD)
  have "length ds = e" using 1 lt by (simp add: ds_def)
  have "tag_text ds"
  proof -
    obtain t where "from_chars_u32 ds = Some (t, length ds)" using tag dx \<open>length ds = e\<close> by auto
    then have "length (takeWhile is_digit ds) = length ds" "ds \<noteq> []" "digits_value (takeWhile is_digit ds) < 2 ^ 32"
      by (auto simp: from_chars_u32_def Let_def split: if_splits)
    moreover then have "takeWhile is_digit ds = ds" by (metis takeWhile_eq_take take_all order_refl)
    ultimately show ?thesis by (metis tag_text_def takeWhile_eq_all_conv)
  qed
  moreover have "drop pos data = ds @ 61 # v @ delim # rest" using x t by (simp add: x_def)
  moreover have "delim \<notin> set ds" "delim \<notin> set v" "delim \<noteq> 61" using nd t by auto
  ultimately show ?thesis using that ScanField_intro by blast
qed

text \<open>Delimiters that cannot be confused with the text of a header field.\<close>

definition good_delim :: "u8 \<Rightarrow> bool" where
  "good_delim delim \<longleftrightarrow> delim \<noteq> 0 \<and> delim \<noteq> 61 \<and> delim \<noteq> 89 \<and> \<not> is_digit delim"

lemma good_delim_dec: "good_delim delim \<Longrightarrow> delim \<notin> set (dec n)"
  using is_digit_dec by (auto simp: good_delim_def)

lemma good_delim_soh [simp]: "good_delim kFixSoh"
  by (simp add: good_delim_def is_digit_def word_le_nat_alt)

lemma ScanField_wire_field:
  assumes "good_delim delim" and "n < 2 ^ 32" and "delim \<notin> set v"
  shows "ScanField (pre @ wire_field delim (n, v) @ rest) (length pre) delim =
     \<lparr> sf_tag = of_nat n, sf_value_offset = length pre + length (dec n) + 1, sf_value_length = length v,
       sf_next_pos = length (pre @ wire_field delim (n, v)) \<rparr>"
  using ScanField_intro [of "length pre" "pre @ wire_field delim (n, v) @ rest" "dec n" v delim rest] assms
  by (simp add: wire_field_def tag_text_dec good_delim_dec good_delim_def)

lemma ValueView_wire_field:
  "ValueView (pre @ wire_field delim (n, v) @ rest) (Suc (length pre + length (dec n))) (length v) = v"
proof -
  have "drop (Suc (length pre + length (dec n))) (pre @ wire_field delim (n, v) @ rest) = v @ delim # rest"
    by (simp add: wire_field_def)
  then show ?thesis by (simp only: ValueView_def) simp
qed

definition header_field :: "u8 \<Rightarrow> nat \<times> bytes \<Rightarrow> bool" where
  "header_field delim f \<longleftrightarrow> fst f < 2 ^ 32 \<and> IsSessionHeaderTag (of_nat (fst f)) \<and> delim \<notin> set (snd f)"

text \<open>The header loop consumes rendered header fields one by one.\<close>

lemma header_loop_fields:
  assumes "good_delim delim" and "\<forall>f\<in>set fs. header_field delim f"
    and "length pre + length (wire_fields delim fs) \<le> scan_end"
  shows "header_loop (pre @ wire_fields delim fs @ rest) delim known scan_end (length pre) (length pre) view =
    header_loop (pre @ wire_fields delim fs @ rest) delim known scan_end
      (length pre + length (wire_fields delim fs)) (length pre + length (wire_fields delim fs))
      (fold (\<lambda>f. assign_header (of_nat (fst f)) (snd f)) fs view)"
  using assms
proof (induction fs arbitrary: pre view)
  case (Cons f fs)
  obtain n v where f: "f = (n, v)" by (cases f)
  then have h: "n < 2 ^ 32" "IsSessionHeaderTag (of_nat n)" "delim \<notin> set v" using Cons.prems(2) by (auto simp: header_field_def)
  let ?data = "pre @ wire_field delim f @ wire_fields delim fs @ rest"
  have scan: "ScanField ?data (length pre) delim =
     \<lparr> sf_tag = of_nat n, sf_value_offset = length pre + length (dec n) + 1, sf_value_length = length v,
       sf_next_pos = length (pre @ wire_field delim f) \<rparr>"
    using ScanField_wire_field [OF Cons.prems(1) h(1,3), of pre "wire_fields delim fs @ rest"] by (simp add: f)
  have val: "ValueView ?data (Suc (length pre + length (dec n))) (length v) = v"
    using ValueView_wire_field [of pre delim n v "wire_fields delim fs @ rest"] by (simp add: f)
  have pos: "length pre < scan_end" "0 < length (wire_field delim f)"
    using Cons.prems(3) by (auto simp: wire_field_def)
  have "header_loop (pre @ wire_fields delim (f # fs) @ rest) delim known scan_end (length pre) (length pre) view
      = header_loop ((pre @ wire_field delim f) @ wire_fields delim fs @ rest) delim known scan_end
          (length (pre @ wire_field delim f)) (length (pre @ wire_field delim f)) (assign_header (of_nat n) v view)"
    using pos h(2) by (subst header_loop.simps) (simp add: scan val Let_def)
  also have "\<dots> = header_loop ((pre @ wire_field delim f) @ wire_fields delim fs @ rest) delim known scan_end
      (length (pre @ wire_field delim f) + length (wire_fields delim fs))
      (length (pre @ wire_field delim f) + length (wire_fields delim fs))
      (fold (\<lambda>f. assign_header (of_nat (fst f)) (snd f)) fs (assign_header (of_nat n) v view))"
    by (rule Cons.IH) (use Cons.prems in auto)
  finally show ?case by (simp add: f add.assoc)
qed simp

text \<open>
  A body that the header loop stops at: empty, or starting with a field that is not a session
  header field. The field may extend into the bytes \<open>trail\<close> after the body.
\<close>

definition opaque_body :: "u8 \<Rightarrow> bytes \<Rightarrow> bytes \<Rightarrow> bool" where
  "opaque_body delim body trail \<longleftrightarrow> body = [] \<or>
     (\<exists>ds v rest. body @ trail = ds @ 61 # v @ delim # rest \<and> tag_text ds \<and> delim \<notin> set ds \<and> delim \<notin> set v \<and>
        \<not> IsSessionHeaderTag (of_nat (digits_value ds)))"

lemma header_loop_stops:
  assumes "opaque_body delim body trail" and "delim \<noteq> 61"
  shows "header_loop (pre @ body @ trail) delim False (length pre + length body) (length pre) l view = Inr (l, view)"
proof (cases "body = []")
  case False
  then obtain ds v rest where b: "body @ trail = ds @ 61 # v @ delim # rest" "tag_text ds" "delim \<notin> set ds" "delim \<notin> set v"
      "\<not> IsSessionHeaderTag (of_nat (digits_value ds))"
    using assms(1) by (auto simp: opaque_body_def)
  have "drop (length pre) (pre @ body @ trail) = ds @ 61 # v @ delim # rest" using b(1) by simp
  from ScanField_intro [OF this b(2-4) assms(2)] False b(5) show ?thesis
    by (subst header_loop.simps) (simp add: Let_def)
qed (simp add: header_loop.simps)

lemma ParseUint32_dec: "n < 2 ^ 32 \<Longrightarrow> ParseUint32 (dec n) = of_nat n"
  using from_chars_dec [of n "[]"] by (simp add: ParseUint32_def)

lemma ParseUint32_checksum_digits: "c < 256 \<Longrightarrow> ParseUint32 (checksum_digits c) = c"
proof -
  assume "c < 256"
  then have c: "unat c < 256" by (simp add: word_less_nat_alt)
  have u: "(ucast (w :: u32) :: u8) = of_nat (unat w)" for w by simp
  have digits: "checksum_digits c = [48 + of_nat (unat c div 100 mod 10), 48 + of_nat (unat c div 10 mod 10), 48 + of_nat (unat c mod 10)]"
    by (simp add: checksum_digits_def u unat_div unat_mod)
  have "digits_value (checksum_digits c) = unat c div 100 mod 10 * 100 + unat c div 10 mod 10 * 10 + unat c mod 10"
    by (simp add: digits digits_value_def unat_of_nat)
  also have "\<dots> = unat c"
  proof -
    have "unat c = unat c div 10 * 10 + unat c mod 10" by (rule div_mod_decomp)
    moreover have "unat c div 10 = unat c div 10 div 10 * 10 + unat c div 10 mod 10" by (rule div_mod_decomp)
    moreover have "unat c div 10 div 10 = unat c div 100" by (simp add: div_mult2_eq [symmetric])
    moreover have "unat c div 100 mod 10 = unat c div 100" using c by simp
    ultimately show ?thesis by linarith
  qed
  finally have "digits_value (checksum_digits c) = unat c" .
  then have "tag_text (checksum_digits c)" using c by (auto simp: tag_text_def digits)
  from from_chars_tag_text [OF this] \<open>digits_value (checksum_digits c) = unat c\<close>
  show ?thesis by (simp add: ParseUint32_def)
qed

definition wire_prefix :: "u8 \<Rightarrow> bytes \<Rightarrow> nat \<Rightarrow> bytes" where
  "wire_prefix delim begin_string n = wire_field delim (8, begin_string) @ wire_field delim (9, dec n)"

text \<open>The decoder on a well-formed frame.\<close>

lemma decode_frame:
  fixes delim bs fs body cs
  defines "hdr \<equiv> wire_fields delim fs"
  defines "pre \<equiv> wire_prefix delim bs (length hdr + length body)"
  defines "data \<equiv> pre @ hdr @ body @ [49, 48, 61] @ cs @ [delim]"
  assumes "good_delim delim" "delim \<notin> set bs" "\<forall>f\<in>set fs. header_field delim f"
    and body: "opaque_body delim body ([49, 48, 61] @ cs @ [delim])"
    and size: "length data < 2 ^ 32" and cs: "length cs = 3"
      "verify \<Longrightarrow> cs = checksum_digits (byte_sum (pre @ hdr @ body) mod 256)"
  shows "DecodeRawPassThroughImpl data None delim verify =
     Some (Inr ((fold (\<lambda>f. assign_header (of_nat (fst f)) (snd f)) fs
                   (RawPassThroughView_new\<lparr> rp_raw_message := data, rp_begin_string := bs \<rparr>))
        \<lparr> rp_raw_body := body, rp_body_start_offset := of_nat (length (pre @ hdr)), rp_valid := True \<rparr>))"
proof -
  let ?L = "length hdr + length body"
  let ?trail = "[49, 48, 61] @ cs @ [delim]"
  have L: "?L < 2 ^ 32" using size by (simp add: data_def)
  have d: "delim \<noteq> 0" "delim \<noteq> 61" using assms(4) by (auto simp: good_delim_def)
  have s1: "ScanField data 0 delim =
     \<lparr> sf_tag = 8, sf_value_offset = length (dec 8) + 1, sf_value_length = length bs,
       sf_next_pos = length (wire_field delim (8, bs)) \<rparr>"
    using ScanField_wire_field [OF assms(4), of 8 bs "[]"] assms(5)
    by (simp add: data_def pre_def wire_prefix_def)
  have s2: "ScanField data (length (wire_field delim (8, bs))) delim =
     \<lparr> sf_tag = 9, sf_value_offset = length (wire_field delim (8, bs)) + length (dec 9) + 1,
       sf_value_length = length (dec ?L), sf_next_pos = length pre \<rparr>"
    using ScanField_wire_field [OF assms(4), of 9 "dec ?L" "wire_field delim (8, bs)"] good_delim_dec [OF assms(4)]
    by (simp add: data_def pre_def wire_prefix_def)
  have v1: "ValueView data (length (dec 8) + 1) (length bs) = bs"
    using ValueView_wire_field [of "[]" delim 8 bs] by (simp add: data_def pre_def wire_prefix_def)
  have v2: "ValueView data (length (wire_field delim (8, bs)) + length (dec 9) + 1) (length (dec ?L)) = dec ?L"
    using ValueView_wire_field [of "wire_field delim (8, bs)" delim 9 "dec ?L"]
    by (simp add: data_def pre_def wire_prefix_def)
  have len: "length data = length pre + length hdr + length body + 7" using cs by (simp add: data_def)
  have sum: "take (length data - 7) data = pre @ hdr @ body" using len by (simp add: data_def)
  have csv: "ValueView data (length data - 4) 3 = cs" using len cs by (simp add: ValueView_def data_def)
  have trailer: "data ! (length data - 7) = 49" "data ! (length data - 6) = 48" "data ! (length data - 5) = 61"
      "data ! (length data - 1) = delim"
    using len cs by (simp_all add: data_def nth_append)
  have ck: "\<not> (verify \<and> byte_sum (take (length data - 7) data) mod 256 \<noteq> ParseUint32 (ValueView data (length data - 4) 3))"
    using cs(2) by (auto simp: sum csv ParseUint32_checksum_digits word_less_nat_alt unat_mod)
  define k where "k = length (pre @ hdr)"
  have k: "k < 2 ^ 32" "length data = k + length body + 7" using size len by (auto simp: k_def)
  have loop: "header_loop data delim False (length data - 7) (length pre) (length pre) view =
      Inr (k, fold (\<lambda>f. assign_header (of_nat (fst f)) (snd f)) fs view)" for view
    using header_loop_fields [OF assms(4,6), of pre "length data - 7" "body @ ?trail" False view]
      header_loop_stops [OF body d(2), of "pre @ hdr"] len
    by (simp add: data_def hdr_def add.assoc k_def)
  have sub: "subspan data k (size_sub (length data - 7) k) = Some body"
    using k by (simp add: subspan_def size_sub_def) (simp add: data_def k_def)
  have asz: "size_sub (length data - 7) (length pre) = ?L" using len by (simp add: size_sub_def)
  have dl: "unat (ParseUint32 (dec ?L)) = ?L" using L by (simp only: ParseUint32_dec) (simp add: unat_of_nat_u32 del: of_nat_add)
  have bnd: "\<not> (length data - 7 < length pre \<or> length data - 7 < length data - 7)" "\<not> length data < 7"
    using len by auto
  have ok: "unat (of_nat k :: u32) = k" using k by (simp add: unat_of_nat_u32)
  show ?thesis
    unfolding DecodeRawPassThroughImpl_def Let_def k_def [symmetric]
    by (simp only: d if_False s1 s2 v1 v2 ScannedField.simps simp_thms bnd trailer ck if_True asz dl option.case
          loop sum.case prod.case ok sub)
qed

section \<open>The encoders\<close>

lemma finish_frame_eq:
  assumes "length digits \<le> 7" "digits = FormatUint32 (of_nat (length rest))"
  shows "finish_frame msg (pre @ replicate 7 48 @ [soh] @ rest) (length pre) (length pre + 8) soh =
     Inr (pre @ digits @ [soh] @ rest @ kCheckSumPrefix @
          checksum_digits (byte_sum (pre @ digits @ [soh] @ rest) mod 256) @ [soh])"
  using assms by (simp add: finish_frame_def Let_def)

definition opt_field :: "nat \<Rightarrow> bytes \<Rightarrow> (nat \<times> bytes) list" where
  "opt_field n v = (if v \<noteq> [] then [(n, v)] else [])"

definition flag_field :: "nat \<Rightarrow> bool \<Rightarrow> (nat \<times> bytes) list" where
  "flag_field n b = (if b then [(n, [89])] else [])"

lemma append_eqs:
  "append_unless_empty out (dec n @ [61]) value soh = out @ wire_fields soh (opt_field n value)"
  "AppendStringField out (dec n @ [61]) value soh = out @ wire_fields soh [(n, value)]"
  "AppendCountField out (dec n @ [61]) number soh = out @ wire_fields soh [(n, dec (unat number))]"
  "AppendOptionalFlagField out (dec n @ [61]) flag soh = out @ wire_fields soh (flag_field n flag)"
  by (simp_all add: append_unless_empty_def AppendStringField_def AppendCountField_def AppendOptionalFlagField_def
      opt_field_def flag_field_def wire_field_def FormatUint32_eq bytes_of_def)

lemma wire_fields_merge: "wire_fields d fs @ wire_fields d gs @ rest = wire_fields d (fs @ gs) @ rest"
  by simp

text \<open>The header fields each encoder writes after \<^verbatim>\<open>BodyLength\<close>.\<close>

definition forwarded_fields :: "RawPassThroughView \<Rightarrow> ForwardingOptions \<Rightarrow> (nat \<times> bytes) list" where
  "forwarded_fields inbound opts =
     [(35, rp_msg_type inbound)] @ [(34, dec (unat (fo_msg_seq_num opts)))] @ [(49, fo_sender_comp_id opts)] @
     opt_field 50 (fo_sender_sub_id opts) @ [(56, fo_target_comp_id opts)] @ opt_field 57 (fo_target_sub_id opts) @
     [(52, fo_sending_time opts)] @ flag_field 43 (fo_poss_dup opts) @ flag_field 97 (fo_poss_resend opts) @
     opt_field 122 (fo_orig_sending_time opts) @ opt_field 115 (fo_on_behalf_of_comp_id opts) @
     opt_field 128 (fo_deliver_to_comp_id opts)"

definition replay_fields :: "RawPassThroughView \<Rightarrow> ReplayOptions \<Rightarrow> (nat \<times> bytes) list" where
  "replay_fields stored opts =
     [(35, rp_msg_type stored)] @ [(34, dec (unat (ro_msg_seq_num opts)))] @ [(49, ro_sender_comp_id opts)] @
     opt_field 50 (ResolveReplayString (ro_sender_sub_id opts) (rp_sender_sub_id stored)) @
     [(56, ro_target_comp_id opts)] @
     opt_field 57 (ResolveReplayString (ro_target_sub_id opts) (rp_target_sub_id stored)) @
     [(52, ro_sending_time opts)] @ opt_field 1137 (ResolveReplayDefaultApplVerID stored opts) @
     opt_field 1128 (ResolveReplayString (ro_appl_ver_id opts) (rp_appl_ver_id stored)) @
     flag_field 43 True @ flag_field 97 (ro_poss_resend opts) @ opt_field 122 (ro_orig_sending_time opts) @
     opt_field 115 (ResolveReplayString (ro_on_behalf_of_comp_id opts) (rp_on_behalf_of_comp_id stored)) @
     opt_field 128 (ResolveReplayString (ro_deliver_to_comp_id opts) (rp_deliver_to_comp_id stored))"

text \<open>A complete frame: prefix, header fields, body and trailer.\<close>

definition wire_frame :: "u8 \<Rightarrow> bytes \<Rightarrow> (nat \<times> bytes) list \<Rightarrow> bytes \<Rightarrow> bytes" where
  "wire_frame delim bs fs body =
     (let out = wire_prefix delim bs (length (wire_fields delim fs) + length body) @ wire_fields delim fs @ body
      in out @ [49, 48, 61] @ checksum_digits (byte_sum out mod 256) @ [delim])"

abbreviation soh_of :: "u8 \<Rightarrow> u8" where "soh_of delimiter \<equiv> (if delimiter = 0 then kFixSoh else delimiter)"

lemma encoders_finish:
  assumes "length (wire_fields soh fs) + length body < 10 ^ 7"
  shows "finish_frame msg ((((dec 8 @ [61]) @ bs @ [soh]) @ dec 9 @ [61]) @ replicate 7 48 @ [soh] @ wire_fields soh fs @ body)
      (length (((dec 8 @ [61]) @ bs @ [soh]) @ dec 9 @ [61]))
      (length ((((dec 8 @ [61]) @ bs @ [soh]) @ dec 9 @ [61]) @ replicate 7 48 @ [soh])) soh =
    Inr (wire_frame soh bs fs body)"
proof -
  let ?n = "length (wire_fields soh fs) + length body" and ?pre = "((dec 8 @ [61]) @ bs @ [soh]) @ dec 9 @ [61]"
  have n: "FormatUint32 (of_nat ?n) = dec ?n"
    using assms by (simp only: FormatUint32_eq) (simp add: unat_of_nat_u32 del: of_nat_add)
  have len: "length (dec ?n) \<le> 7" using length_dec [of ?n 6] assms by simp
  have p: "kCheckSumPrefix = [49, 48, 61]" by (simp add: bytes_of_def)
  have l: "length (?pre @ replicate 7 48 @ [soh]) = length ?pre + 8" by simp
  have "dec ?n = FormatUint32 (of_nat (length (wire_fields soh fs @ body)))" using n by simp
  from finish_frame_eq [OF len this, of msg ?pre soh] show ?thesis
    unfolding l p wire_frame_def wire_prefix_def wire_field_def fst_conv snd_conv Let_def append_assoc l [unfolded append_assoc] .
qed

lemma EncodeForwarded_frame:
  assumes "rp_valid inbound" and "soh = soh_of (fo_delimiter opts)"
    and "length (wire_fields soh (forwarded_fields inbound opts)) + length (rp_raw_body inbound) < 10 ^ 7"
  shows "EncodeForwarded inbound opts =
    Inr (wire_frame soh (if fo_begin_string opts = [] then rp_begin_string inbound else fo_begin_string opts)
           (forwarded_fields inbound opts) (rp_raw_body inbound))"
  using encoders_finish [OF assms(3), unfolded forwarded_fields_def append_assoc] assms(1)
  unfolding EncodeForwarded_def Let_def prefix_bytes append_eqs assms(2) [symmetric] forwarded_fields_def
  by (simp only: append_assoc wire_fields_merge simp_thms if_False)

lemma EncodeReplay_frame:
  assumes "rp_valid stored" and "soh = soh_of (ro_delimiter opts)"
    and "length (wire_fields soh (replay_fields stored opts)) + length (rp_raw_body stored) < 10 ^ 7"
  shows "EncodeReplay stored opts =
    Inr (wire_frame soh (if ro_begin_string opts = [] then rp_begin_string stored else ro_begin_string opts)
           (replay_fields stored opts) (rp_raw_body stored))"
  using encoders_finish [OF assms(3), unfolded replay_fields_def append_assoc] assms(1)
  unfolding EncodeReplay_def Let_def prefix_bytes append_eqs assms(2) [symmetric] replay_fields_def
  by (simp only: append_assoc wire_fields_merge simp_thms if_False)

subsection \<open>The zero-copy encoder\<close>

text \<open>The bytes that go on the wire: the external body spliced into the owned buffer.\<close>

definition wire_bytes :: "EncodedFrameBytes \<Rightarrow> bytes" where
  "wire_bytes f =
     (if ef_external_body f = [] then frame_view f
      else take (ef_body_splice_offset f) (frame_view f) @ ef_external_body f @ drop (ef_body_splice_offset f) (frame_view f))"

definition summed :: "bytes \<Rightarrow> bytes \<times> u32" where
  "summed buf = (buf, byte_sum buf)"

lemma summed_eqs:
  "append_field (dec n @ [61]) value soh (summed buf) = summed (buf @ wire_fields soh [(n, value)])"
  "append_field_unless_empty (dec n @ [61]) value soh (summed buf) = summed (buf @ wire_fields soh (opt_field n value))"
  "append_char soh (append_sv (dec n @ [61, 89]) (summed buf)) = summed (buf @ wire_fields soh (flag_field n True))"
  "(if flag then summed (buf @ wire_fields soh (flag_field n True)) else summed buf)
     = summed (buf @ wire_fields soh (flag_field n flag))"
  by (simp_all add: append_field_def append_field_unless_empty_def append_char_def append_sv_def summed_def
      wire_field_def opt_field_def flag_field_def add.assoc)

lemma count_eqs:
  "CountStringFieldBytes (dec n @ [61]) value = length (wire_fields d [(n, value)])"
  "count_unless_empty (dec n @ [61]) value = length (wire_fields d (opt_field n value))"
  "CountUintFieldBytes (dec n @ [61]) number = length (wire_fields d [(n, dec (unat number))])"
  "CountLiteralFieldBytes (dec n @ [61, 89]) = length (wire_fields d (flag_field n True))"
  "(if flag then length (wire_fields d (flag_field n True)) else 0) = length (wire_fields d (flag_field n flag))"
  by (simp_all add: CountStringFieldBytes_def count_unless_empty_def CountUintFieldBytes_def CountLiteralFieldBytes_def
      wire_field_def opt_field_def flag_field_def FormatUint32_eq)

lemma length_wire_fields_append: "length (wire_fields d fs) + length (wire_fields d gs) = length (wire_fields d (fs @ gs))"
  by simp

lemma wire_bytes_inline:
  "wire_bytes (f\<lparr> ef_external_body := [], ef_body_splice_offset := n \<rparr>) = frame_view f"
  by (simp add: wire_bytes_def frame_view_def)

text \<open>
  Once the header text is known, the rest of the routine only depends on it: sizes, checksum and
  storage. \<open>hdr\<close> is the frame up to the body.
\<close>

definition replay_storage :: "u8 \<Rightarrow> bool \<Rightarrow> nat \<Rightarrow> bytes \<times> u32 \<Rightarrow> bytes \<Rightarrow> EncodedFrameBytes Result option" where
  "replay_storage soh zero_copy buf_size st body =
     (let capacity = (if buf_size \<le> kEncodedFrameInlineCapacity then kEncodedFrameInlineCapacity else buf_size);
          body_checksum = (if length body > 0 then ComputeChecksumSIMD body else 0);
          buf = (if zero_copy then fst st else fst st @ body);
          splice_offset = (if zero_copy then length (fst st) else 0);
          checksum = (snd st + body_checksum) mod 256;
          buf = buf @ kCheckSumPrefix @ checksum_digits checksum @ [soh];
          out = (if buf_size \<le> kEncodedFrameInlineCapacity
                 then EncodedFrameBytes_new\<lparr> ef_inline_storage := buf \<rparr>
                 else EncodedFrameBytes_new\<lparr> ef_overflow_storage := buf \<rparr>)
      in if length buf > capacity then None
         else Some (Inr (if zero_copy \<and> length body > 0
                         then out\<lparr> ef_external_body := body, ef_body_splice_offset := splice_offset \<rparr>
                         else out\<lparr> ef_external_body := [], ef_body_splice_offset := 0 \<rparr>)))"

lemma replay_storage_wire:
  assumes "buf_size = length hdr + (if zero_copy then 0 else length body) + 7"
  shows "\<exists>f. replay_storage soh zero_copy buf_size (summed hdr) body = Some (Inr f)
    \<and> wire_bytes f = hdr @ body @ [49, 48, 61] @ checksum_digits (byte_sum (hdr @ body) mod 256) @ [soh]
    \<and> frame_size f = length (wire_bytes f)"
proof -
  have sum: "(if 0 < length body then ComputeChecksumSIMD body else 0) = byte_sum body"
    by (simp add: ComputeChecksumSIMD_eq)
  have p: "kCheckSumPrefix = [49, 48, 61]" by (simp add: bytes_of_def)
  have len: "length (checksum_digits c) = 3" for c by (simp add: checksum_digits_def)
  show ?thesis
    unfolding replay_storage_def Let_def sum p
    using assms by (auto simp: summed_def len wire_bytes_def frame_view_def frame_size_def EncodedFrameBytes_new_def)
qed

lemma EncodeReplayInto_storage:
  fixes stored opts soh
  defines "fs \<equiv> replay_fields stored opts"
  defines "bs \<equiv> (if ro_begin_string opts = [] then rp_begin_string stored else ro_begin_string opts)"
  defines "n \<equiv> length (wire_fields soh fs) + length (rp_raw_body stored)"
  assumes "rp_valid stored" and soh: "soh = soh_of (ro_delimiter opts)" and "n < 2 ^ 32"
    and "length bs < 2 ^ 62"
  shows "EncodeReplayInto stored opts =
    replay_storage soh (ro_zero_copy_body opts)
      (length (wire_prefix soh bs n @ wire_fields soh fs) +
       (if ro_zero_copy_body opts then 0 else length (rp_raw_body stored)) + 7)
      (summed (wire_prefix soh bs n @ wire_fields soh fs)) (rp_raw_body stored)"
  proof -
  have L: "unat (of_nat n :: u32) = n" using assms(6) by (simp add: unat_of_nat_u32)
  have lenD: "length (dec n) \<le> 10" using length_dec [of n 9] assms(6) by simp
  have start: "([], 0) = summed []" by (simp add: summed_def)
  have sub: "size_sub n (length (rp_raw_body stored)) = length (wire_fields soh fs)"
    by (simp add: size_sub_def n_def)
  have sz: "(length (wire_fields soh ([(8, bs)] @ [(9, dec n)])) + length (wire_fields soh fs) +
      (if ro_zero_copy_body opts then 0 else length (rp_raw_body stored)) + 7) mod 2 ^ 64 =
      length (wire_prefix soh bs n @ wire_fields soh fs) +
       (if ro_zero_copy_body opts then 0 else length (rp_raw_body stored)) + 7"
    using assms(6,7) lenD by (auto simp: wire_prefix_def wire_field_def n_def)
  have pre: "wire_prefix soh bs n @ wire_fields soh fs = wire_fields soh ([(8, bs)] @ [(9, dec n)] @ fs)"
    by (simp add: wire_prefix_def)
  show ?thesis
    unfolding EncodeReplayInto_def Let_def soh [symmetric] start
    unfolding prefix_bytes
    unfolding count_eqs [where d = soh] summed_eqs FormatUint32_eq
    unfolding length_wire_fields_append wire_fields_simps(3) [symmetric] append_assoc append_Nil
    unfolding fs_def [unfolded replay_fields_def, symmetric] bs_def [symmetric]
    unfolding n_def [symmetric] L sub
    unfolding sz pre
    using assms(4) by (simp only: replay_storage_def Let_def simp_thms if_False prefix_bytes(3) append_assoc)
qed

lemma length_wire_frame:
  "length (wire_fields d fs) + length body < 10 ^ 7 \<Longrightarrow>
   length (wire_frame d bs fs body) \<le> length bs + 10 ^ 7 + 30"
  using length_dec [of "length (wire_fields d fs) + length body" 6]
  by (simp add: wire_frame_def wire_prefix_def wire_field_def Let_def checksum_digits_def)

section \<open>What the decoder recovers\<close>

text \<open>Assigning an optional field is the same as assigning its value to the empty default.\<close>

lemma fold_opt_field:
  "fold (\<lambda>f. assign_header (of_nat (fst f)) (snd f)) (opt_field n v) view =
     (if v = [] then view else assign_header (of_nat n) v view)"
  by (simp add: opt_field_def)

lemma fold_flag_field:
  "fold (\<lambda>f. assign_header (of_nat (fst f)) (snd f)) (flag_field n b) view =
     (if b then assign_header (of_nat n) [89] view else view)"
  by (simp add: flag_field_def)

lemma header_field_numbers:
  "header_field d (n, v) \<longleftrightarrow> d \<notin> set v"
  if "n \<in> {34, 35, 43, 49, 50, 52, 56, 57, 97, 115, 122, 128, 1128, 1137}"
  using that by (auto simp: header_field_def IsSessionHeaderTag_def IsAggregateSessionEnvelopeTag_iff)

definition view_of :: "bytes \<Rightarrow> bytes \<Rightarrow> (nat \<times> bytes) list \<Rightarrow> RawPassThroughView" where
  "view_of data bs fs = fold (\<lambda>f. assign_header (of_nat (fst f)) (snd f)) fs
     (RawPassThroughView_new\<lparr> rp_raw_message := data, rp_begin_string := bs \<rparr>)"

lemma ParseUint32_number: "ParseUint32 (dec (unat v)) = v"
  using ParseUint32_dec [of "unat v"] unat_lt_2p32 [of v] by simp

lemma view_of_forwarded:
  "view_of data bs (forwarded_fields v opts) =
     \<lparr> rp_begin_string = bs, rp_msg_type = rp_msg_type v, rp_msg_seq_num = fo_msg_seq_num opts,
       rp_sender_comp_id = fo_sender_comp_id opts, rp_sender_sub_id = fo_sender_sub_id opts,
       rp_target_comp_id = fo_target_comp_id opts, rp_target_sub_id = fo_target_sub_id opts,
       rp_on_behalf_of_comp_id = fo_on_behalf_of_comp_id opts, rp_deliver_to_comp_id = fo_deliver_to_comp_id opts,
       rp_default_appl_ver_id = [], rp_appl_ver_id = [], rp_sending_time = fo_sending_time opts,
       rp_orig_sending_time = fo_orig_sending_time opts, rp_poss_dup = fo_poss_dup opts,
       rp_poss_resend = fo_poss_resend opts, rp_raw_body = [], rp_body_start_offset = 0,
       rp_raw_message = data, rp_valid = False \<rparr>"
  by (simp add: view_of_def forwarded_fields_def fold_opt_field fold_flag_field RawPassThroughView_new_def
      assign_header_def ParseUint32_number ParseBoolean_def bytes_of_def)

lemma view_of_replay:
  "view_of data bs (replay_fields v opts) =
     \<lparr> rp_begin_string = bs, rp_msg_type = rp_msg_type v, rp_msg_seq_num = ro_msg_seq_num opts,
       rp_sender_comp_id = ro_sender_comp_id opts,
       rp_sender_sub_id = ResolveReplayString (ro_sender_sub_id opts) (rp_sender_sub_id v),
       rp_target_comp_id = ro_target_comp_id opts,
       rp_target_sub_id = ResolveReplayString (ro_target_sub_id opts) (rp_target_sub_id v),
       rp_on_behalf_of_comp_id = ResolveReplayString (ro_on_behalf_of_comp_id opts) (rp_on_behalf_of_comp_id v),
       rp_deliver_to_comp_id = ResolveReplayString (ro_deliver_to_comp_id opts) (rp_deliver_to_comp_id v),
       rp_default_appl_ver_id = ResolveReplayDefaultApplVerID v opts,
       rp_appl_ver_id = ResolveReplayString (ro_appl_ver_id opts) (rp_appl_ver_id v),
       rp_sending_time = ro_sending_time opts, rp_orig_sending_time = ro_orig_sending_time opts,
       rp_poss_dup = True, rp_poss_resend = ro_poss_resend opts, rp_raw_body = [], rp_body_start_offset = 0,
       rp_raw_message = data, rp_valid = False \<rparr>"
  by (simp add: view_of_def replay_fields_def fold_opt_field fold_flag_field RawPassThroughView_new_def
      assign_header_def ParseUint32_number ParseBoolean_def bytes_of_def)

lemma decode_wire_frame:
  assumes "good_delim d" "d \<notin> set bs" "\<forall>f\<in>set fs. header_field d f" "length (wire_frame d bs fs body) < 2 ^ 32"
    and "\<And>c. opaque_body d body ([49, 48, 61] @ checksum_digits c @ [d])"
  shows "DecodeRawPassThrough (wire_frame d bs fs body) d verify =
     Some (Inr ((view_of (wire_frame d bs fs body) bs fs)
        \<lparr> rp_raw_body := body,
          rp_body_start_offset :=
            of_nat (length (wire_prefix d bs (length (wire_fields d fs) + length body) @ wire_fields d fs)),
          rp_valid := True \<rparr>))"
proof -
  let ?hdr = "wire_fields d fs" and ?pre = "wire_prefix d bs (length (wire_fields d fs) + length body)"
  let ?cs = "checksum_digits (byte_sum (?pre @ ?hdr @ body) mod 256)"
  have data: "wire_frame d bs fs body = ?pre @ ?hdr @ body @ [49, 48, 61] @ ?cs @ [d]"
    unfolding wire_frame_def Let_def by simp
  have "length ?cs = 3" by (simp add: checksum_digits_def)
  then show ?thesis
    using decode_frame [where delim = d and bs = bs and fs = fs and body = body and cs = ?cs and verify = verify]
      assms
    unfolding DecodeRawPassThrough_def view_of_def data by blast
qed

text \<open>The delimiter occurs in no text field of a view.\<close>

definition clean_view :: "u8 \<Rightarrow> RawPassThroughView \<Rightarrow> bool" where
  "clean_view d v \<longleftrightarrow> d \<notin> set (rp_begin_string v) \<and> d \<notin> set (rp_msg_type v) \<and> d \<notin> set (rp_sender_comp_id v) \<and>
     d \<notin> set (rp_sender_sub_id v) \<and> d \<notin> set (rp_target_comp_id v) \<and> d \<notin> set (rp_target_sub_id v) \<and>
     d \<notin> set (rp_on_behalf_of_comp_id v) \<and> d \<notin> set (rp_deliver_to_comp_id v) \<and>
     d \<notin> set (rp_default_appl_ver_id v) \<and> d \<notin> set (rp_appl_ver_id v) \<and> d \<notin> set (rp_sending_time v) \<and>
     d \<notin> set (rp_orig_sending_time v)"

lemma clean_view_assign: "clean_view d v \<Longrightarrow> d \<notin> set val \<Longrightarrow> clean_view d (assign_header tag val v)"
  by (simp add: clean_view_def assign_header_def)

lemma ValueView_clean: "ScanField data pos d \<noteq> no_field \<Longrightarrow> f = ScanField data pos d \<Longrightarrow>
    d \<notin> set (ValueView data (sf_value_offset f) (sf_value_length f))"
proof (erule ScanField_elim)
  fix ds v rest
  assume f: "f = ScanField data pos d" "drop pos data = ds @ 61 # v @ d # rest" "d \<notin> set v"
    "ScanField data pos d = \<lparr> sf_tag = of_nat (digits_value ds), sf_value_offset = pos + length ds + 1,
       sf_value_length = length v, sf_next_pos = pos + length ds + length v + 2 \<rparr>"
  have "drop (pos + length ds + 1) data = drop (length ds + 1) (drop pos data)" by (simp add: add.commute)
  then have "drop (pos + length ds + 1) data = v @ d # rest" using f(2) by simp
  with f show "d \<notin> set (ValueView data (sf_value_offset f) (sf_value_length f))" by (simp add: ValueView_def)
qed

lemma header_loop_sound:
  assumes "header_loop data d False scan_end pos le view = Inr (l, view')" and "le = pos" and "clean_view d view"
    and "pos \<le> length data"
  shows "clean_view d view' \<and> pos \<le> l \<and> l \<le> length data \<and>
    (l < scan_end \<longrightarrow> ScanField data l d \<noteq> no_field \<and> \<not> IsSessionHeaderTag (sf_tag (ScanField data l d)))"
  using assms
proof (induction data d False scan_end pos le view rule: header_loop.induct)
  case (1 data d scan_end pos le view)
  let ?f = "ScanField data pos d"
  show ?case
  proof (cases "pos < scan_end")
    case inside: True
    show ?thesis
    proof (cases "IsSessionHeaderTag (sf_tag ?f)")
      case True
      then have nf: "?f \<noteq> no_field"
        by (auto simp: no_field_def IsSessionHeaderTag_def IsAggregateSessionEnvelopeTag_iff)
      have nz: "\<not> (sf_tag ?f = 0 \<and> sf_next_pos ?f = 0)" using ScanField_next [OF nf] by auto
      let ?view = "assign_header (sf_tag ?f) (ValueView data (sf_value_offset ?f) (sf_value_length ?f)) view"
      have "header_loop data d False scan_end (sf_next_pos ?f) (sf_next_pos ?f) ?view = Inr (l, view')"
        using "1.prems"(1) inside True nz by (subst (asm) header_loop.simps) (simp add: Let_def)
      moreover have "clean_view d ?view" using "1.prems"(3) ValueView_clean [OF nf refl] by (rule clean_view_assign)
      ultimately show ?thesis
        using "1.hyps" [OF inside refl nz] True ScanField_next [OF nf] by fastforce
    next
      case False
      then have nz: "\<not> (sf_tag ?f = 0 \<and> sf_next_pos ?f = 0)"
        using "1.prems"(1) inside by (subst (asm) header_loop.simps) (auto simp: Let_def split: if_splits)
      then have "?f \<noteq> no_field" by (auto simp: no_field_def)
      moreover have "l = le" "view' = view"
        using "1.prems"(1) inside False nz by (auto simp: header_loop.simps [of data] Let_def)
      ultimately show ?thesis using "1.prems" False by auto
    qed
  next
    case False
    then show ?thesis using "1.prems" by (simp add: header_loop.simps [of data])
  qed
qed

text \<open>
  What a successful decode of a frame says about it: the frame ends in a trailer, the body ends
  where the trailer starts and begins at the first field that is not a session header field.
\<close>

lemma decode_sound:
  assumes dec: "DecodeRawPassThrough data d verify = Some (Inr v)" and "d \<noteq> 0" and size: "length data < 2 ^ 32"
  shows "clean_view d v \<and> rp_valid v \<and>
    (\<exists>cs. length cs = 3 \<and> opaque_body d (rp_raw_body v) ([49, 48, 61] @ cs @ [d]))"
proof -
  define f1 f2 where "f1 = ScanField data 0 d" and "f2 = ScanField data (sf_next_pos f1) d"
  define cfs where "cfs = length data - 7"
  let ?view = "RawPassThroughView_new\<lparr> rp_raw_message := data,
      rp_begin_string := ValueView data (sf_value_offset f1) (sf_value_length f1) \<rparr>"
  have known: "(None \<noteq> (None :: u32 option)) = False" by simp
  note dec' = dec [unfolded DecodeRawPassThrough_def DecodeRawPassThroughImpl_def Let_def option.case,
      unfolded if_not_P [OF assms(2)] known, folded f1_def, folded f2_def, folded cfs_def]
  have t1: "sf_tag f1 = 8" "7 \<le> length data" "sf_tag f2 = 9" using dec' by (auto split: if_splits)
  have t2: "data ! cfs = 49" "data ! (length data - 6) = 48" "data ! (length data - 5) = 61"
      "data ! (length data - 1) = d"
    using dec' by (simp_all split: if_splits)
  obtain l view where loop: "header_loop data d False cfs (sf_next_pos f2) (sf_next_pos f2) ?view = Inr (l, view)"
    using dec' by (cases "header_loop data d False cfs (sf_next_pos f2) (sf_next_pos f2) ?view")
      (auto split: if_splits)
  obtain body where sub: "subspan data (unat (of_nat l :: u32)) (size_sub cfs (unat (of_nat l :: u32))) = Some body"
    and v: "v = view\<lparr> rp_raw_body := body, rp_body_start_offset := of_nat l, rp_valid := True \<rparr>"
    using dec' [unfolded loop sum.case prod.case] by (simp split: if_splits option.splits)
  have f1: "f1 \<noteq> no_field" using t1(1) by (auto simp: no_field_def)
  have "clean_view d ?view"
    using ValueView_clean [of data 0 d f1] f1 by (simp add: clean_view_def RawPassThroughView_new_def f1_def)
  moreover have "f2 \<noteq> no_field" using t1(3) by (auto simp: no_field_def)
  then have "sf_next_pos f2 \<le> length data" using ScanField_next [of data "sf_next_pos f1" d] by (simp add: f2_def)
  ultimately have sound: "clean_view d view" "l \<le> length data"
      "l < cfs \<longrightarrow> ScanField data l d \<noteq> no_field \<and> \<not> IsSessionHeaderTag (sf_tag (ScanField data l d))"
    using header_loop_sound [OF loop refl] by auto
  have clean: "clean_view d v" using sound by (simp add: v clean_view_def)
  have n: "length data = cfs + 7" using t1(2) by (simp add: cfs_def)
  have t3: "data ! cfs = 49" "data ! (cfs + 1) = 48" "data ! (cfs + 2) = 61" "data ! (cfs + 6) = d"
    using t2 by (simp_all add: n add.commute [of _ cfs])
  have trailer: "drop cfs data = [49, 48, 61] @ take 3 (drop (cfs + 3) data) @ [d]"
    (is "_ = _ @ ?cs @ _")
  proof (rule nth_equalityI)
    show "length (drop cfs data) = length ([49, 48, 61] @ ?cs @ [d])" using t1(2) by (simp add: cfs_def)
    fix i assume "i < length (drop cfs data)"
    then have "i < 7" using t1(2) by (simp add: cfs_def)
    then have "i = 0 \<or> i = 1 \<or> i = 2 \<or> i = 3 \<or> i = 4 \<or> i = 5 \<or> i = 6" by linarith
    then show "drop cfs data ! i = ([49, 48, 61] @ ?cs @ [d]) ! i"
      using t3 by (elim disjE) (simp_all add: n nth_append add.commute [of _ cfs])
  qed
  have cs: "length ?cs = 3" using t1(2) by (simp add: cfs_def)
  have "opaque_body d body ([49, 48, 61] @ ?cs @ [d])"
  proof (cases "cfs \<le> l")
    case True
    have "unat (of_nat l :: u32) = l" using sound(2) size by (simp add: unat_of_nat_u32)
    then have "body = []"
      using sub True t1(2) sound(2) size by (auto simp: subspan_def size_sub_def cfs_def split: if_splits)
    then show ?thesis by (simp add: opaque_body_def)
  next
    case False
    then have l: "unat (of_nat l :: u32) = l" using size by (simp add: unat_of_nat_u32 cfs_def)
    have body: "body @ drop cfs data = drop l data"
    proof -
      have "body = take (cfs - l) (drop l data)" using sub False by (auto simp: subspan_def size_sub_def l split: if_splits)
      moreover have "drop cfs data = drop (cfs - l) (drop l data)" using False by simp
      ultimately show ?thesis by (metis append_take_drop_id)
    qed
    have "ScanField data l d \<noteq> no_field" "\<not> IsSessionHeaderTag (sf_tag (ScanField data l d))"
      using sound False by auto
    then obtain ds w rest where "drop l data = ds @ 61 # w @ d # rest" "tag_text ds" "d \<notin> set ds" "d \<notin> set w"
        "\<not> IsSessionHeaderTag (of_nat (digits_value ds))"
      by (auto elim!: ScanField_elim)
    with body trailer show ?thesis unfolding opaque_body_def by metis
  qed
  with cs have "\<exists>cs. length cs = 3 \<and> opaque_body d body ([49, 48, 61] @ cs @ [d])" by blast
  with clean show ?thesis by (simp add: v)
qed

text \<open>Whether a body is opaque does not depend on the checksum digits that follow it.\<close>

lemma opaque_body_trailer:
  assumes "opaque_body d body ([49, 48, 61] @ cs @ [d])" and "d \<notin> set cs'" and "good_delim d"
  shows "opaque_body d body ([49, 48, 61] @ cs' @ [d])"
proof (cases "body = []")
  case False
  then obtain ds v rest where b: "body @ [49, 48, 61] @ cs @ [d] = ds @ 61 # v @ d # rest"
      and ds: "tag_text ds" "d \<notin> set ds" "d \<notin> set v" "\<not> IsSessionHeaderTag (of_nat (digits_value ds))"
    using assms(1) by (auto simp: opaque_body_def)
  have "\<exists>v' rest'. body @ [49, 48, 61] @ cs' @ [d] = ds @ 61 # v' @ d # rest' \<and> d \<notin> set v'"
  proof (cases "d \<in> set body")
    case True
    then obtain b1 b2 where b12: "body = b1 @ d # b2" "d \<notin> set b1" by (meson split_list_first)
    have "d \<notin> set (ds @ 61 # v)" using ds assms(3) by (auto simp: good_delim_def)
    moreover have "b1 @ d # (b2 @ [49, 48, 61] @ cs @ [d]) = (ds @ 61 # v) @ d # rest" using b b12 by simp
    ultimately have "b1 = ds @ 61 # v" using b12(2) by (auto simp: append_eq_append_conv2 Cons_eq_append_conv append_eq_Cons_conv)
    then have "body @ [49, 48, 61] @ cs' @ [d] = ds @ 61 # v @ d # (b2 @ [49, 48, 61] @ cs' @ [d])" using b12 by simp
    then show ?thesis using ds(3) by blast
  next
    case False
    have "61 \<notin> set ds" using ds(1) by (rule tag_text_no_eq)
    have "(body @ [49, 48]) @ 61 # (cs @ [d]) = ds @ 61 # (v @ d # rest)" using b by simp
    then obtain us where "(body @ [49, 48, 61]) = ds @ 61 # us"
      using \<open>61 \<notin> set ds\<close> by (auto simp: append_eq_append_conv2 Cons_eq_append_conv append_eq_Cons_conv)
    then have eq: "body @ [49, 48, 61] @ cs' @ [d] = ds @ 61 # (us @ cs') @ d # []" and "set us \<subseteq> set (body @ [49, 48, 61])"
      by (metis append.assoc append_Cons, auto)
    moreover have "d \<notin> set (us @ cs')" using calculation(2) False assms(2,3) by (auto simp: good_delim_def is_digit_def)
    ultimately show ?thesis by blast
  qed
  with ds show ?thesis unfolding opaque_body_def by blast
qed (simp add: opaque_body_def)

lemma checksum_digits_clean:
  assumes "good_delim d"
  shows "d \<notin> set (checksum_digits c)"
proof -
  have digit: "is_digit (48 + ucast (w mod 10))" for w :: u32
  proof -
    have "unat (w mod 10) < 10" by (simp add: unat_mod)
    from is_digit_of_nat [OF this] show ?thesis by simp
  qed
  then show ?thesis using assms by (auto simp: checksum_digits_def good_delim_def)
qed

definition clean_replay_options :: "u8 \<Rightarrow> ReplayOptions \<Rightarrow> bool" where
  "clean_replay_options d opts \<longleftrightarrow> d \<notin> set (ro_begin_string opts) \<and> d \<notin> set (ro_sender_comp_id opts) \<and>
     d \<notin> set (ro_sender_sub_id opts) \<and> d \<notin> set (ro_target_comp_id opts) \<and> d \<notin> set (ro_target_sub_id opts) \<and>
     d \<notin> set (ro_default_appl_ver_id opts) \<and> d \<notin> set (ro_appl_ver_id opts) \<and>
     d \<notin> set (ro_on_behalf_of_comp_id opts) \<and> d \<notin> set (ro_deliver_to_comp_id opts) \<and>
     d \<notin> set (ro_sending_time opts) \<and> d \<notin> set (ro_orig_sending_time opts)"

lemma replay_fields_clean:
  assumes "clean_view d v" "clean_replay_options d opts" "good_delim d"
  shows "\<forall>f\<in>set (replay_fields v opts). header_field d f"
proof -
  have "d \<notin> set (ResolveReplayString a b)" if "d \<notin> set a" "d \<notin> set b" for a b
    using that by (simp add: ResolveReplayString_def)
  moreover have "d \<notin> set (ResolveReplayDefaultApplVerID v opts)"
    using assms by (simp add: ResolveReplayDefaultApplVerID_def clean_view_def clean_replay_options_def)
  ultimately show ?thesis
    using assms(1,2) good_delim_dec [OF assms(3)] assms(3)
    by (auto simp: replay_fields_def opt_field_def flag_field_def header_field_numbers clean_view_def
        clean_replay_options_def good_delim_def)
qed

text \<open>A stored order frame and the options of a replay and of a forward, for the witnesses.\<close>

definition sample_header :: "(nat \<times> bytes) list" where
  "sample_header = [(35, bytes_of ''D''), (34, dec 7), (49, bytes_of ''BUY''), (56, bytes_of ''SELL''),
     (52, bytes_of ''20260102-03:04:05'')]"

definition sample_body :: bytes where
  "sample_body = wire_field 1 (11, bytes_of ''ORD1'')"

definition sample_frame :: bytes where
  "sample_frame = wire_frame 1 (bytes_of ''FIX.4.4'') sample_header sample_body"

definition sample_replay_options :: ReplayOptions where
  "sample_replay_options =
     \<lparr> ro_sender_comp_id = bytes_of ''BUY'', ro_sender_sub_id = [], ro_target_comp_id = bytes_of ''SELL'',
       ro_target_sub_id = [], ro_begin_string = bytes_of ''FIX.4.4'', ro_default_appl_ver_id = [], ro_appl_ver_id = [],
       ro_on_behalf_of_comp_id = [], ro_deliver_to_comp_id = [], ro_msg_seq_num = 7,
       ro_sending_time = bytes_of ''20260102-03:05:00'', ro_orig_sending_time = bytes_of ''20260102-03:04:05'',
       ro_poss_resend = False, ro_delimiter = 1, ro_zero_copy_body = True \<rparr>"

definition sample_forwarding_options :: ForwardingOptions where
  "sample_forwarding_options =
     \<lparr> fo_sender_comp_id = bytes_of ''HUB'', fo_sender_sub_id = [], fo_target_comp_id = bytes_of ''VENUE'',
       fo_target_sub_id = [], fo_msg_seq_num = 12, fo_sending_time = bytes_of ''20260102-03:05:00'',
       fo_begin_string = bytes_of ''FIX.4.4'', fo_on_behalf_of_comp_id = bytes_of ''BUY'', fo_deliver_to_comp_id = [],
       fo_poss_dup = False, fo_poss_resend = False, fo_orig_sending_time = [], fo_delimiter = 1 \<rparr>"

definition sample_view_of_frame :: RawPassThroughView where
  "sample_view_of_frame = (view_of sample_frame (bytes_of ''FIX.4.4'') sample_header)
     \<lparr> rp_raw_body := sample_body,
       rp_body_start_offset := of_nat (length (wire_prefix 1 (bytes_of ''FIX.4.4'')
          (length (wire_fields 1 sample_header) + length sample_body) @ wire_fields 1 sample_header)),
       rp_valid := True \<rparr>"

lemma sample_body_opaque: "opaque_body 1 sample_body rest"
  unfolding opaque_body_def
  by (intro disjI2 exI [of _ "dec 11"] exI [of _ "bytes_of ''ORD1''"] exI [of _ rest])
    (auto simp: sample_body_def wire_field_def tag_text_dec good_delim_dec [OF good_delim_soh] bytes_of_def
      IsSessionHeaderTag_def IsAggregateSessionEnvelopeTag_iff)

lemma sample_frame_length: "length sample_frame < 200"
  by (simp add: sample_frame_def wire_frame_def wire_prefix_def wire_field_def sample_header_def sample_body_def
      Let_def checksum_digits_def bytes_of_def dec_ge)

lemma sample_frame_decodes: "DecodeRawPassThrough sample_frame 1 True = Some (Inr sample_view_of_frame)"
proof -
  have "\<forall>f\<in>set sample_header. header_field 1 f"
    using good_delim_dec [OF good_delim_soh] by (simp add: sample_header_def header_field_numbers bytes_of_def)
  then show ?thesis
    using decode_wire_frame [OF good_delim_soh, of "bytes_of ''FIX.4.4''" sample_header sample_body True]
      sample_body_opaque sample_frame_length
    by (simp add: sample_frame_def sample_view_of_frame_def bytes_of_def)
qed

section \<open>Properties\<close>

text \<open>
  C16: Replaying a stored frame: when the header-only decoder accepts a frame, the replay encoder
  turns its view into a frame with a correct body length and checksum which the decoder accepts
  again; the application body and message type are carried over unchanged, the sequence number and
  times are the ones asked for, and \<open>PossDupFlag\<close> is set.
\<close>

theorem replay_frame_roundtrip:
  assumes "DecodeRawPassThrough data d verify = Some (Inr stored)" and "length data < 2 ^ 32"
    and "good_delim d" and "ro_delimiter opts = d" and "clean_replay_options d opts"
    and "length (wire_fields d (replay_fields stored opts)) + length (rp_raw_body stored) < 10 ^ 7"
    and "length (ro_begin_string opts) < 10 ^ 7" and "length (rp_begin_string stored) < 10 ^ 7"
  shows "\<exists>out v. EncodeReplay stored opts = Inr out \<and> DecodeRawPassThrough out d True = Some (Inr v)
    \<and> rp_raw_body v = rp_raw_body stored \<and> rp_msg_type v = rp_msg_type stored
    \<and> rp_msg_seq_num v = ro_msg_seq_num opts \<and> rp_poss_dup v \<and> rp_sending_time v = ro_sending_time opts
    \<and> rp_orig_sending_time v = ro_orig_sending_time opts \<and> rp_sender_comp_id v = ro_sender_comp_id opts
    \<and> rp_target_comp_id v = ro_target_comp_id opts"
  proof -
  let ?bs = "if ro_begin_string opts = [] then rp_begin_string stored else ro_begin_string opts"
  let ?fs = "replay_fields stored opts" and ?body = "rp_raw_body stored"
  let ?out = "wire_frame d ?bs ?fs ?body"
  have d0: "d \<noteq> 0" using assms(3) by (simp add: good_delim_def)
  obtain cs where sound: "clean_view d stored" "rp_valid stored" "opaque_body d ?body ([49, 48, 61] @ cs @ [d])"
    using decode_sound [OF assms(1) d0 assms(2)] by blast
  have enc: "EncodeReplay stored opts = Inr ?out"
    using EncodeReplay_frame [OF sound(2) _ assms(6)] assms(4) d0 by simp
  have "d \<notin> set ?bs" using sound(1) assms(5) by (simp add: clean_view_def clean_replay_options_def)
  moreover have "length ?out < 2 ^ 32"
    using assms(6-8) length_wire_frame [of d ?fs ?body ?bs] by auto
  moreover have "opaque_body d ?body ([49, 48, 61] @ checksum_digits c @ [d])" for c
    using sound(3) checksum_digits_clean [OF assms(3)] assms(3) by (rule opaque_body_trailer)
  ultimately show ?thesis
    using enc decode_wire_frame [OF assms(3), of ?bs ?fs ?body True] replay_fields_clean [OF sound(1) assms(5,3)]
    unfolding view_of_replay by auto
qed

lemma sample_view_fields:
  "rp_begin_string sample_view_of_frame = bytes_of ''FIX.4.4''" "rp_msg_type sample_view_of_frame = bytes_of ''D''"
  "rp_sender_sub_id sample_view_of_frame = []" "rp_target_sub_id sample_view_of_frame = []"
  "rp_on_behalf_of_comp_id sample_view_of_frame = []" "rp_deliver_to_comp_id sample_view_of_frame = []"
  "rp_default_appl_ver_id sample_view_of_frame = []" "rp_appl_ver_id sample_view_of_frame = []"
  "rp_raw_body sample_view_of_frame = sample_body" "rp_valid sample_view_of_frame"
  by (simp_all add: sample_view_of_frame_def view_of_def sample_header_def assign_header_def RawPassThroughView_new_def)

lemma sample_replay_size:
  "length (wire_fields 1 (replay_fields sample_view_of_frame sample_replay_options)) + length sample_body < 1000"
  by (simp add: replay_fields_def sample_view_fields sample_replay_options_def ResolveReplayString_def
      ResolveReplayDefaultApplVerID_def opt_field_def flag_field_def wire_field_def sample_body_def bytes_of_def dec_ge)

theorem replay_frame_roundtrip_witness:
  "\<exists>out v. EncodeReplay sample_view_of_frame sample_replay_options = Inr out
    \<and> DecodeRawPassThrough out 1 True = Some (Inr v) \<and> rp_raw_body v = bytes_of ''11=ORD1'' @ [1] \<and> rp_poss_dup v"
proof -
  have "clean_replay_options 1 sample_replay_options"
    by (simp add: clean_replay_options_def sample_replay_options_def bytes_of_def)
  then show ?thesis
    using replay_frame_roundtrip [OF sample_frame_decodes, of sample_replay_options] sample_frame_length sample_replay_size
    by (auto simp: sample_view_fields sample_replay_options_def bytes_of_def sample_body_def wire_field_def dec_ge)
qed

text \<open>
  C17: The pre-sized, unchecked replay encoder is memory safe and equivalent to the straightforward
  one: for every stored view and frames below the placeholder limit it never writes past the
  buffer it sized, and the bytes it puts on the wire, zero-copy or not, are those of \<open>EncodeReplay\<close>.
\<close>

theorem replay_encoders_agree:
  assumes "length (wire_fields (soh_of (ro_delimiter opts)) (replay_fields stored opts)) +
           length (rp_raw_body stored) < 10 ^ 7"
    and "length (ro_begin_string opts) < 10 ^ 7" and "length (rp_begin_string stored) < 10 ^ 7"
  shows "case EncodeReplayInto stored opts of
           None \<Rightarrow> False
         | Some (Inl e) \<Rightarrow> EncodeReplay stored opts = Inl e
         | Some (Inr f) \<Rightarrow> EncodeReplay stored opts = Inr (wire_bytes f) \<and> frame_size f = length (wire_bytes f)"
proof (cases "rp_valid stored")
  case True
  let ?d = "soh_of (ro_delimiter opts)" and ?fs = "replay_fields stored opts" and ?body = "rp_raw_body stored"
  let ?bs = "if ro_begin_string opts = [] then rp_begin_string stored else ro_begin_string opts"
  let ?n = "length (wire_fields ?d ?fs) + length ?body"
  have "?n < 2 ^ 32" "length ?bs < 2 ^ 62" using assms by auto
  note into = EncodeReplayInto_storage [OF True refl this]
  obtain f where "EncodeReplayInto stored opts = Some (Inr f)" "frame_size f = length (wire_bytes f)"
      "wire_bytes f = (wire_prefix ?d ?bs ?n @ wire_fields ?d ?fs) @ ?body @ [49, 48, 61] @
          checksum_digits (byte_sum ((wire_prefix ?d ?bs ?n @ wire_fields ?d ?fs) @ ?body) mod 256) @ [?d]"
    unfolding into using replay_storage_wire [OF refl] by blast
  moreover have "EncodeReplay stored opts = Inr (wire_frame ?d ?bs ?fs ?body)"
    by (rule EncodeReplay_frame [OF True refl assms(1)])
  ultimately show ?thesis unfolding wire_frame_def Let_def append_assoc by simp
next
  case False
  then show ?thesis by (simp add: EncodeReplayInto_def EncodeReplay_def)
qed

theorem replay_encoders_agree_witness:
  "\<exists>f. EncodeReplayInto sample_view_of_frame sample_replay_options = Some (Inr f)
     \<and> EncodeReplay sample_view_of_frame sample_replay_options = Inr (wire_bytes f)"
proof -
  have "EncodeReplay sample_view_of_frame sample_replay_options \<noteq> Inl e" for e
    using EncodeReplay_frame [of sample_view_of_frame 1 sample_replay_options] sample_replay_size sample_view_fields(9,10)
    by (simp add: sample_replay_options_def)
  then show ?thesis
    using replay_encoders_agree [of sample_replay_options sample_view_of_frame] sample_replay_size
    by (auto simp: sample_view_fields sample_replay_options_def bytes_of_def split: option.splits sum.splits)
qed

text \<open>
  C18: Forwarding a decoded frame: the forwarded frame decodes to the same application body and
  message type under the header the options ask for, with nothing else added or lost.
\<close>

theorem forwarded_frame_roundtrip:
  assumes "DecodeRawPassThrough data d verify = Some (Inr inbound)" and "length data < 2 ^ 32"
    and "good_delim d" and "fo_delimiter opts = d" and "\<forall>f\<in>set (forwarded_fields inbound opts). d \<notin> set (snd f)"
    and "fo_begin_string opts \<noteq> []" and "d \<notin> set (fo_begin_string opts)"
    and "length (wire_fields d (forwarded_fields inbound opts)) + length (rp_raw_body inbound) < 10 ^ 7"
    and "length (fo_begin_string opts) < 10 ^ 7"
  shows "\<exists>out off. EncodeForwarded inbound opts = Inr out \<and> DecodeRawPassThrough out d True = Some (Inr
     \<lparr> rp_begin_string = fo_begin_string opts, rp_msg_type = rp_msg_type inbound,
       rp_msg_seq_num = fo_msg_seq_num opts,
       rp_sender_comp_id = fo_sender_comp_id opts, rp_sender_sub_id = fo_sender_sub_id opts,
       rp_target_comp_id = fo_target_comp_id opts, rp_target_sub_id = fo_target_sub_id opts,
       rp_on_behalf_of_comp_id = fo_on_behalf_of_comp_id opts, rp_deliver_to_comp_id = fo_deliver_to_comp_id opts,
       rp_default_appl_ver_id = [], rp_appl_ver_id = [], rp_sending_time = fo_sending_time opts,
       rp_orig_sending_time = fo_orig_sending_time opts, rp_poss_dup = fo_poss_dup opts,
       rp_poss_resend = fo_poss_resend opts, rp_raw_body = rp_raw_body inbound, rp_body_start_offset = off,
       rp_raw_message = out, rp_valid = True \<rparr>)"
proof -
  let ?fs = "forwarded_fields inbound opts" and ?body = "rp_raw_body inbound" and ?bs = "fo_begin_string opts"
  let ?out = "wire_frame d ?bs ?fs ?body"
  have d0: "d \<noteq> 0" using assms(3) by (simp add: good_delim_def)
  obtain cs where sound: "rp_valid inbound" "opaque_body d ?body ([49, 48, 61] @ cs @ [d])"
    using decode_sound [OF assms(1) d0 assms(2)] by blast
  have "EncodeForwarded inbound opts = Inr ?out"
    using EncodeForwarded_frame [OF sound(1) _ assms(8)] assms(4,6) d0 by simp
  moreover have "\<forall>f\<in>set ?fs. header_field d f"
    using assms(5) by (auto simp: forwarded_fields_def opt_field_def flag_field_def header_field_numbers)
  moreover have "length ?out < 2 ^ 32" using assms(8,9) length_wire_frame [of d ?fs ?body ?bs] by simp
  moreover have "opaque_body d ?body ([49, 48, 61] @ checksum_digits c @ [d])" for c
    using sound(2) checksum_digits_clean [OF assms(3)] assms(3) by (rule opaque_body_trailer)
  ultimately show ?thesis
    using decode_wire_frame [OF assms(3,7), of ?fs ?body True] unfolding view_of_forwarded by auto
qed

theorem forwarded_frame_roundtrip_witness:
  "\<exists>out v. EncodeForwarded sample_view_of_frame sample_forwarding_options = Inr out
    \<and> DecodeRawPassThrough out 1 True = Some (Inr v) \<and> rp_raw_body v = bytes_of ''11=ORD1'' @ [1]
    \<and> rp_on_behalf_of_comp_id v = bytes_of ''BUY'' \<and> rp_msg_seq_num v = 12"
proof -
  have fs: "forwarded_fields sample_view_of_frame sample_forwarding_options =
      [(35, bytes_of ''D''), (34, dec 12), (49, bytes_of ''HUB''), (56, bytes_of ''VENUE''),
       (52, bytes_of ''20260102-03:05:00''), (115, bytes_of ''BUY'')]"
    by (simp add: forwarded_fields_def sample_view_fields sample_forwarding_options_def opt_field_def flag_field_def)
  then have "length (wire_fields 1 (forwarded_fields sample_view_of_frame sample_forwarding_options)) +
      length (rp_raw_body sample_view_of_frame) < 10 ^ 7"
    by (simp add: sample_view_fields wire_field_def sample_body_def bytes_of_def dec_ge)
  then show ?thesis
    using forwarded_frame_roundtrip [OF sample_frame_decodes, of sample_forwarding_options] sample_frame_length fs
      good_delim_dec [OF good_delim_soh, of 12]
    by (auto simp: sample_view_fields(9) sample_forwarding_options_def sample_body_def wire_field_def bytes_of_def dec_ge)
qed

text \<open>
  A frame whose last header field is not terminated before the trailer: the field scan runs on
  into the checksum field.
\<close>

definition overrun_frame :: bytes where
  "overrun_frame = bytes_of ''8=FIX.4.4'' @ [1] @ bytes_of ''9=4'' @ [1] @ bytes_of ''35=D'' @ bytes_of ''10=181'' @ [1]"

lemma overrun_frame_None: "DecodeRawPassThrough overrun_frame kFixSoh True = None"
proof -
  let ?a = "wire_field 1 (8, bytes_of ''FIX.4.4'')" and ?b = "wire_field 1 (9, dec 4)"
    and ?c = "wire_field 1 (35, bytes_of ''D10=181'')"
  have bytes: "overrun_frame = ?a @ ?b @ ?c"
    by (simp add: overrun_frame_def wire_field_def bytes_of_def dec_ge)
  have len: "length overrun_frame = 25" "length ?a = 10" "length ?b = 4"
    by (simp_all add: overrun_frame_def wire_field_def)
  have s1: "ScanField overrun_frame 0 1 = \<lparr> sf_tag = 8, sf_value_offset = 2, sf_value_length = 7, sf_next_pos = 10 \<rparr>"
    using ScanField_wire_field [OF good_delim_soh, of 8 "bytes_of ''FIX.4.4''" "[]" "?b @ ?c"] len
    by (simp add: bytes bytes_of_def)
  have s2: "ScanField overrun_frame 10 1 = \<lparr> sf_tag = 9, sf_value_offset = 12, sf_value_length = 1, sf_next_pos = 14 \<rparr>"
    using ScanField_wire_field [OF good_delim_soh, of 9 "dec 4" "?a" "?c"] len
    by (simp add: bytes)
  have s3: "ScanField overrun_frame 14 1 = \<lparr> sf_tag = 35, sf_value_offset = 17, sf_value_length = 7, sf_next_pos = 25 \<rparr>"
    using ScanField_wire_field [OF good_delim_soh, of 35 "bytes_of ''D10=181''" "?a @ ?b" "[]"] len
    by (simp add: bytes bytes_of_def dec_ge)
  have v2: "ParseUint32 (ValueView overrun_frame 12 (Suc 0)) = 4"
    using ParseUint32_dec [of 4] by (simp add: ValueView_def overrun_frame_def bytes_of_def)
  have ck: "ParseUint32 (ValueView overrun_frame 21 3) = 181" "byte_sum (take 18 overrun_frame) mod 256 = 181"
    using ParseUint32_dec [of 181] by (simp_all add: ValueView_def overrun_frame_def bytes_of_def dec_ge)
  have t: "overrun_frame ! 18 = 49" "overrun_frame ! 19 = 48" "overrun_frame ! 20 = 61" "overrun_frame ! 24 = 1"
    by (simp_all add: overrun_frame_def bytes_of_def)
  have loop: "\<exists>view'. header_loop overrun_frame 1 False 18 14 14 view = Inr (25, view')" for view
    by (subst header_loop.simps, subst header_loop.simps)
      (simp add: s3 Let_def IsSessionHeaderTag_def IsAggregateSessionEnvelopeTag_iff)
  obtain view' where "header_loop overrun_frame 1 False 18 14 14
      (RawPassThroughView_new\<lparr> rp_raw_message := overrun_frame, rp_begin_string := ValueView overrun_frame 2 7 \<rparr>) = Inr (25, view')"
    using loop by blast
  then show ?thesis
    by (simp add: DecodeRawPassThrough_def DecodeRawPassThroughImpl_def Let_def s1 s2 v2 ck t len size_sub_def subspan_def)
qed

end
