(* ===== verification/Parsed_Message.thy ===== *)
theory Parsed_Message
  imports Wire_Format
begin

text \<open>
  \<^verbatim>\<open>message/message_structs.h\<close>, \<^verbatim>\<open>message/message.cpp\<close> and the slot builders of
  \<^verbatim>\<open>codec/fix_codec.cpp\<close>: owned messages and their writer, the flat table a decoder fills
  (field slots, group frames, entries, the direct-address index of the root fields and its
  overflow list) and the views that read both. An index into one of the flat vectors is a
  \<^typ>\<open>u32\<close> as in the code; \<open>kInvalidParsedIndex\<close> plays the null pointer. A \<^verbatim>\<open>double\<close> is its 64-bit
  pattern and \<^verbatim>\<open>std::from_chars\<close> for doubles is the argument \<open>fc\<close> of the functions that use it.
\<close>

section \<open>Owned messages\<close>

datatype FieldVariant = VString string | VInt "64 word" | VFloat u64 | VChar char | VBoolean bool

record FieldValue =
  fv_tag :: u32
  fv_value :: FieldVariant

datatype MessageData = MessageData (md_msg_type: string) (md_fields: "FieldValue list") (md_groups: "GroupData list")
  and GroupData = GroupData (gd_count_tag: u32) (gd_entries: "MessageData list")

datatype FieldTypeIndex = kFieldString | kFieldInt | kFieldFloat | kFieldChar | kFieldBoolean

fun type_index :: "FieldVariant \<Rightarrow> FieldTypeIndex" where
  "type_index (VString _) = kFieldString"
| "type_index (VInt _) = kFieldInt"
| "type_index (VFloat _) = kFieldFloat"
| "type_index (VChar _) = kFieldChar"
| "type_index (VBoolean _) = kFieldBoolean"

record FieldView =
  vw_tag :: u32
  vw_type :: FieldTypeIndex
  vw_string_value :: string
  vw_int_value :: "64 word"
  vw_float_value :: u64
  vw_char_value :: char
  vw_bool_value :: bool

definition FieldView_new :: FieldView where
  "FieldView_new = \<lparr> vw_tag = 0, vw_type = kFieldString, vw_string_value = [], vw_int_value = 0, vw_float_value = 0,
     vw_char_value = CHR 0x00, vw_bool_value = False \<rparr>"

definition to_owned :: "FieldView \<Rightarrow> FieldValue" where
  "to_owned v = \<lparr> fv_tag = vw_tag v, fv_value =
     (case vw_type v of
        kFieldInt \<Rightarrow> VInt (vw_int_value v)
      | kFieldFloat \<Rightarrow> VFloat (vw_float_value v)
      | kFieldChar \<Rightarrow> VChar (vw_char_value v)
      | kFieldBoolean \<Rightarrow> VBoolean (vw_bool_value v)
      | kFieldString \<Rightarrow> VString (vw_string_value v)) \<rparr>"

text \<open>The visitor that views an owned field.\<close>

definition owned_view :: "FieldValue \<Rightarrow> FieldView" where
  "owned_view f =
     (let v = FieldView_new\<lparr> vw_tag := fv_tag f, vw_type := type_index (fv_value f) \<rparr>
      in case fv_value f of
           VString s \<Rightarrow> v\<lparr> vw_string_value := s \<rparr>
         | VInt i \<Rightarrow> v\<lparr> vw_int_value := i \<rparr>
         | VFloat d \<Rightarrow> v\<lparr> vw_float_value := d \<rparr>
         | VChar c \<Rightarrow> v\<lparr> vw_char_value := c \<rparr>
         | VBoolean b \<Rightarrow> v\<lparr> vw_bool_value := b \<rparr>)"

definition FindField :: "FieldValue list \<Rightarrow> u32 \<Rightarrow> FieldValue option" where
  "FindField fs tag = find (\<lambda>f. fv_tag f = tag) fs"

definition FindGroup :: "GroupData list \<Rightarrow> u32 \<Rightarrow> GroupData option" where
  "FindGroup groups count_tag = find (\<lambda>g. gd_count_tag g = count_tag) groups"

fun UpsertField :: "FieldValue list \<Rightarrow> FieldValue \<Rightarrow> FieldValue list" where
  "UpsertField [] value = [value]"
| "UpsertField (f # fs) value = (if fv_tag f = fv_tag value then value # fs else f # UpsertField fs value)"

section \<open>The message writer\<close>

definition MessageDataWriter_new :: "string \<Rightarrow> MessageData" where
  "MessageDataWriter_new msg_type = MessageData msg_type [] []"

definition upsert_field :: "FieldValue \<Rightarrow> MessageData \<Rightarrow> MessageData" where
  "upsert_field value m = MessageData (md_msg_type m) (UpsertField (md_fields m) value) (md_groups m)"

definition set_string :: "u32 \<Rightarrow> string \<Rightarrow> MessageData \<Rightarrow> MessageData" where
  "set_string tag value = upsert_field \<lparr> fv_tag = tag, fv_value = VString value \<rparr>"

definition set_int :: "u32 \<Rightarrow> 64 word \<Rightarrow> MessageData \<Rightarrow> MessageData" where
  "set_int tag value = upsert_field \<lparr> fv_tag = tag, fv_value = VInt value \<rparr>"

definition set_char :: "u32 \<Rightarrow> char \<Rightarrow> MessageData \<Rightarrow> MessageData" where
  "set_char tag value = upsert_field \<lparr> fv_tag = tag, fv_value = VChar value \<rparr>"

definition set_float :: "u32 \<Rightarrow> u64 \<Rightarrow> MessageData \<Rightarrow> MessageData" where
  "set_float tag value = upsert_field \<lparr> fv_tag = tag, fv_value = VFloat value \<rparr>"

definition set_boolean :: "u32 \<Rightarrow> bool \<Rightarrow> MessageData \<Rightarrow> MessageData" where
  "set_boolean tag value = upsert_field \<lparr> fv_tag = tag, fv_value = VBoolean value \<rparr>"

definition add_string :: "u32 \<Rightarrow> string \<Rightarrow> MessageData \<Rightarrow> MessageData" where
  "add_string tag value m =
     MessageData (md_msg_type m) (md_fields m @ [\<lparr> fv_tag = tag, fv_value = VString value \<rparr>]) (md_groups m)"

text \<open>
  Groups: \<^verbatim>\<open>ensure_group\<close> and \<^verbatim>\<open>add_group_entry\<close> of the writer; a path of group tags and entry
  indices stands for the writer of a nested entry, which \<open>resolve\<close> follows on every use.
\<close>

fun append_entry :: "GroupData list \<Rightarrow> u32 \<Rightarrow> GroupData list \<times> nat" where
  "append_entry [] count_tag = ([GroupData count_tag [MessageData [] [] []]], 0)"
| "append_entry (g # gs) count_tag =
     (if gd_count_tag g = count_tag
      then (GroupData count_tag (gd_entries g @ [MessageData [] [] []]) # gs, length (gd_entries g))
      else case append_entry gs count_tag of (gs', i) \<Rightarrow> (g # gs', i))"

definition add_group_entry :: "u32 \<Rightarrow> MessageData \<Rightarrow> MessageData \<times> (u32 \<times> nat) list" where
  "add_group_entry count_tag m =
     (case append_entry (md_groups m) count_tag of
        (groups, i) \<Rightarrow> (MessageData (md_msg_type m) (md_fields m) groups, [(count_tag, i)]))"

fun resolve :: "MessageData \<Rightarrow> (u32 \<times> nat) list \<Rightarrow> MessageData option" where
  "resolve m [] = Some m"
| "resolve m ((count_tag, i) # path) =
     (case FindGroup (md_groups m) count_tag of
        None \<Rightarrow> None
      | Some g \<Rightarrow> if i \<ge> length (gd_entries g) then None else resolve (gd_entries g ! i) path)"

definition writer_reset :: "MessageData \<Rightarrow> MessageData" where
  "writer_reset m = MessageData (md_msg_type m) [] (map (\<lambda>g. GroupData (gd_count_tag g) []) (md_groups m))"

section \<open>Parsed messages\<close>

abbreviation kInvalidParsedIndex :: u32 where "kInvalidParsedIndex \<equiv> - 1"
abbreviation kInvalidHashSlot :: u16 where "kInvalidHashSlot \<equiv> 0xFFFF"
abbreviation kFieldHashTableSize :: nat where "kFieldHashTableSize \<equiv> 1024"
abbreviation kQuickCacheSize :: nat where "kQuickCacheSize \<equiv> 8"

definition QuickCacheSlotForTag :: "u32 \<Rightarrow> nat option" where
  "QuickCacheSlotForTag tag =
     (if tag = kBeginString then Some 0
      else if tag = kBodyLength then Some 1
      else if tag = kMsgType then Some 2
      else if tag = kMsgSeqNum then Some 3
      else if tag = kSenderCompID then Some 4
      else if tag = kTargetCompID then Some 5
      else if tag = kSendingTime then Some 6
      else if tag = kCheckSum then Some 7
      else None)"

text \<open>The three low bits of a slot's flags, set and read by \<^verbatim>\<open>set_type\<close> and \<^verbatim>\<open>type\<close>, are the field \<open>sl_type\<close>.\<close>

record ParsedFieldSlot =
  sl_tag :: u32
  sl_value_offset :: u32
  sl_value_length :: u16
  sl_type :: FieldTypeIndex

record ParsedEntryData =
  pe_first_field_index :: u32
  pe_field_count :: u16
  pe_first_group :: u32
  pe_last_group :: u32
  pe_group_count :: u16
  pe_next_entry :: u32

definition ParsedEntryData_new :: ParsedEntryData where
  "ParsedEntryData_new =
     \<lparr> pe_first_field_index = kInvalidParsedIndex, pe_field_count = 0, pe_first_group = kInvalidParsedIndex,
       pe_last_group = kInvalidParsedIndex, pe_group_count = 0, pe_next_entry = kInvalidParsedIndex \<rparr>"

record ParsedGroupFrame =
  pg_count_tag :: u32
  pg_first_entry :: u32
  pg_last_entry :: u32
  pg_entry_count :: u16
  pg_depth :: u16
  pg_next_group :: u32

record ParsedMessageData =
  pm_raw :: bytes
  pm_msg_type :: bytes
  pm_root :: ParsedEntryData
  pm_field_slots :: "ParsedFieldSlot list"
  pm_entries :: "ParsedEntryData list"
  pm_groups :: "ParsedGroupFrame list"
  pm_field_hash_table :: "u32 list"
  pm_field_hash_overflow :: "u16 list"
  pm_field_generation :: u16
  pm_quick_cache :: "u16 list"

definition ParsedMessageData_new :: ParsedMessageData where
  "ParsedMessageData_new =
     \<lparr> pm_raw = [], pm_msg_type = [], pm_root = ParsedEntryData_new, pm_field_slots = [], pm_entries = [], pm_groups = [],
       pm_field_hash_table = replicate kFieldHashTableSize 0, pm_field_hash_overflow = [], pm_field_generation = 1,
       pm_quick_cache = replicate kQuickCacheSize kInvalidHashSlot \<rparr>"

definition ResetForNewDecode :: "ParsedMessageData \<Rightarrow> ParsedMessageData" where
  "ResetForNewDecode p =
     (let p = p\<lparr> pm_field_generation := pm_field_generation p + 1 \<rparr>;
          p = (if pm_field_generation p = 0
               then p\<lparr> pm_field_hash_table := replicate kFieldHashTableSize 0, pm_field_generation := 1 \<rparr>
               else p)
      in p\<lparr> pm_field_hash_overflow := [], pm_quick_cache := replicate kQuickCacheSize kInvalidHashSlot,
            pm_msg_type := [], pm_root := ParsedEntryData_new, pm_field_slots := [], pm_entries := [], pm_groups := [] \<rparr>)"

subsection \<open>Building\<close>

text \<open>\<^verbatim>\<open>ParsedContainerRef\<close>: the root or an entry by index.\<close>

datatype ParsedContainerRef = RootContainer | EntryContainer u32

fun ResolveContainer :: "ParsedMessageData \<Rightarrow> ParsedContainerRef \<Rightarrow> ParsedEntryData" where
  "ResolveContainer p RootContainer = pm_root p"
| "ResolveContainer p (EntryContainer i) = pm_entries p ! unat i"

fun update_container :: "(ParsedEntryData \<Rightarrow> ParsedEntryData) \<Rightarrow> ParsedContainerRef \<Rightarrow> ParsedMessageData \<Rightarrow> ParsedMessageData" where
  "update_container f RootContainer p = p\<lparr> pm_root := f (pm_root p) \<rparr>"
| "update_container f (EntryContainer i) p = p\<lparr> pm_entries := (pm_entries p)[unat i := f (pm_entries p ! unat i)] \<rparr>"

text \<open>The scan of the overflow list: pairs of a 16-bit tag and a 16-bit slot index.\<close>

fun overflow_scan :: "u16 list \<Rightarrow> u16 \<Rightarrow> u16 option" where
  "overflow_scan (t # i # rest) tag = (if t = tag then Some i else overflow_scan rest tag)"
| "overflow_scan _ tag = None"

text \<open>The linear scan over the slots \<open>i\<close> to \<open>end_index\<close> of a group entry.\<close>

function slot_scan :: "ParsedFieldSlot list \<Rightarrow> u32 \<Rightarrow> u32 \<Rightarrow> u32 \<Rightarrow> u32 option" where
  "slot_scan slots i end_index tag =
     (if i < end_index then
        (if sl_tag (slots ! unat i) = tag then Some i else slot_scan slots (i + 1) end_index tag)
      else None)"
  by auto
termination
proof (relation "measure (\<lambda>(_, i, e, _). unat e - unat i)", goal_cases)
  case (2 slots i e tag)
  then have "i \<noteq> - 1" using unat_le_u32_max [of e] by (auto simp: word_less_nat_alt)
  then have "unat (i + 1) = Suc (unat i)" by (rule unat_Suc_u32)
  with 2 show ?case by (simp add: word_less_nat_alt)
qed simp

declare slot_scan.simps [simp del]

definition FindParsedFieldIndex :: "ParsedMessageData \<Rightarrow> ParsedContainerRef \<Rightarrow> u32 \<Rightarrow> u32" where
  "FindParsedFieldIndex p container tag =
     (if container = RootContainer then
        (if unat tag < kFieldHashTableSize then
           (let packed = pm_field_hash_table p ! unat tag; gen = ucast (drop_bit 16 packed) :: u16
            in if gen = pm_field_generation p then and packed 0xFFFF else kInvalidParsedIndex)
         else case overflow_scan (pm_field_hash_overflow p) (ucast tag) of
                Some i \<Rightarrow> ucast i
              | None \<Rightarrow> kInvalidParsedIndex)
      else
        let entry = ResolveContainer p container
        in if pe_first_field_index entry = kInvalidParsedIndex \<or> pe_field_count entry = 0 then kInvalidParsedIndex
           else case slot_scan (pm_field_slots p) (pe_first_field_index entry)
                       (pe_first_field_index entry + ucast (pe_field_count entry)) tag of
                  Some i \<Rightarrow> i
                | None \<Rightarrow> kInvalidParsedIndex)"

definition InsertIntoRootHashTable :: "u32 \<Rightarrow> ParsedMessageData \<Rightarrow> ParsedMessageData" where
  "InsertIntoRootHashTable slot_index p =
     (let tag = sl_tag (pm_field_slots p ! unat slot_index)
      in if unat tag < kFieldHashTableSize
         then p\<lparr> pm_field_hash_table := (pm_field_hash_table p)[unat tag :=
                   or (push_bit 16 (ucast (pm_field_generation p))) (and slot_index 0xFFFF)] \<rparr>
         else p\<lparr> pm_field_hash_overflow := pm_field_hash_overflow p @ [ucast tag, ucast slot_index] \<rparr>)"

definition cache_slot :: "u32 \<Rightarrow> u32 \<Rightarrow> ParsedMessageData \<Rightarrow> ParsedMessageData" where
  "cache_slot tag new_index p =
     (case QuickCacheSlotForTag tag of
        Some k \<Rightarrow> p\<lparr> pm_quick_cache := (pm_quick_cache p)[k := ucast new_index] \<rparr>
      | None \<Rightarrow> p)"

definition AppendParsedFieldSlot ::
    "ParsedContainerRef \<Rightarrow> ParsedFieldSlot \<Rightarrow> ParsedMessageData \<Rightarrow> bool \<times> ParsedMessageData" where
  "AppendParsedFieldSlot container slot p =
     (let existing = FindParsedFieldIndex p container (sl_tag slot)
      in if existing \<noteq> kInvalidParsedIndex then
           (True, p\<lparr> pm_field_slots := (pm_field_slots p)[unat existing := slot] \<rparr>)
         else
           let new_index = of_nat (length (pm_field_slots p));
               p = p\<lparr> pm_field_slots := pm_field_slots p @ [slot] \<rparr>;
               p = update_container (\<lambda>e. e\<lparr> pe_first_field_index :=
                       (if pe_first_field_index e = kInvalidParsedIndex then new_index else pe_first_field_index e),
                     pe_field_count := pe_field_count e + 1 \<rparr>) container p;
               p = (if container = RootContainer
                    then cache_slot (sl_tag slot) new_index (InsertIntoRootHashTable new_index p)
                    else p)
           in (False, p))"

definition AppendParsedFieldSlotFast :: "ParsedFieldSlot \<Rightarrow> ParsedMessageData \<Rightarrow> bool \<times> ParsedMessageData" where
  "AppendParsedFieldSlotFast slot p =
     (let tag = sl_tag slot;
          existing =
            (if unat tag < kFieldHashTableSize then
               (let packed = pm_field_hash_table p ! unat tag; gen = ucast (drop_bit 16 packed) :: u16
                in if gen = pm_field_generation p then Some (and packed 0xFFFF) else None)
             else map_option ucast (overflow_scan (pm_field_hash_overflow p) (ucast tag)))
      in case existing of
           Some i \<Rightarrow> (True, p\<lparr> pm_field_slots := (pm_field_slots p)[unat i := slot] \<rparr>)
         | None \<Rightarrow>
             let new_index = of_nat (length (pm_field_slots p));
                 p = p\<lparr> pm_field_slots := pm_field_slots p @ [slot] \<rparr>;
                 p = p\<lparr> pm_root := (pm_root p)\<lparr> pe_first_field_index :=
                         (if pe_first_field_index (pm_root p) = kInvalidParsedIndex then new_index
                          else pe_first_field_index (pm_root p)),
                       pe_field_count := pe_field_count (pm_root p) + 1 \<rparr> \<rparr>
             in (False, cache_slot tag new_index (InsertIntoRootHashTable new_index p)))"

text \<open>The 32-bit length is stored in 16 bits.\<close>

definition MakeParsedFieldSlotWithType :: "u32 \<Rightarrow> u32 \<Rightarrow> u32 \<Rightarrow> FieldTypeIndex \<Rightarrow> ParsedFieldSlot" where
  "MakeParsedFieldSlotWithType tag value_offset value_length field_type =
     \<lparr> sl_tag = tag, sl_value_offset = value_offset, sl_value_length = ucast value_length, sl_type = field_type \<rparr>"


text \<open>
  The list of groups of a container is linked by \<^verbatim>\<open>next_group\<close>. A walk visits every frame at most
  once, so the number of frames is enough fuel; running out of it would mean a cyclic list.
\<close>

primrec group_walk :: "nat \<Rightarrow> ParsedMessageData \<Rightarrow> u32 \<Rightarrow> u32 list" where
  "group_walk 0 p g = []"
| "group_walk (Suc n) p g =
     (if g = kInvalidParsedIndex then [] else g # group_walk n p (pg_next_group (pm_groups p ! unat g)))"

definition container_groups :: "ParsedMessageData \<Rightarrow> ParsedEntryData \<Rightarrow> u32 list" where
  "container_groups p entry = group_walk (length (pm_groups p)) p (pe_first_group entry)"

definition FindParsedGroupIndex :: "ParsedMessageData \<Rightarrow> ParsedContainerRef \<Rightarrow> u32 \<Rightarrow> u32" where
  "FindParsedGroupIndex p container count_tag =
     (case find (\<lambda>g. pg_count_tag (pm_groups p ! unat g) = count_tag) (container_groups p (ResolveContainer p container)) of
        Some g \<Rightarrow> g
      | None \<Rightarrow> kInvalidParsedIndex)"

definition EnsureParsedGroup ::
    "ParsedContainerRef \<Rightarrow> u32 \<Rightarrow> u16 \<Rightarrow> ParsedMessageData \<Rightarrow> u32 \<times> ParsedMessageData" where
  "EnsureParsedGroup container count_tag depth p =
     (let existing = FindParsedGroupIndex p container count_tag
      in if existing \<noteq> kInvalidParsedIndex then (existing, p)
         else
           let new_index = of_nat (length (pm_groups p));
               p = p\<lparr> pm_groups := pm_groups p @ [\<lparr> pg_count_tag = count_tag, pg_first_entry = kInvalidParsedIndex,
                       pg_last_entry = kInvalidParsedIndex, pg_entry_count = 0, pg_depth = depth,
                       pg_next_group = kInvalidParsedIndex \<rparr>] \<rparr>;
               entry = ResolveContainer p container;
               p = (if pe_first_group entry = kInvalidParsedIndex
                    then update_container (\<lambda>e. e\<lparr> pe_first_group := new_index \<rparr>) container p
                    else p\<lparr> pm_groups := (pm_groups p)[unat (pe_last_group entry) :=
                             (pm_groups p ! unat (pe_last_group entry))\<lparr> pg_next_group := new_index \<rparr>] \<rparr>);
               p = update_container (\<lambda>e. e\<lparr> pe_last_group := new_index, pe_group_count := pe_group_count e + 1 \<rparr>) container p
           in (new_index, p))"

definition AppendParsedEntry :: "u32 \<Rightarrow> ParsedMessageData \<Rightarrow> u32 \<times> ParsedMessageData" where
  "AppendParsedEntry group_index p =
     (let new_index = of_nat (length (pm_entries p));
          p = p\<lparr> pm_entries := pm_entries p @ [ParsedEntryData_new] \<rparr>;
          g = pm_groups p ! unat group_index;
          g' = (if pg_first_entry g = kInvalidParsedIndex then g\<lparr> pg_first_entry := new_index \<rparr> else g);
          p = (if pg_first_entry g = kInvalidParsedIndex then p
               else p\<lparr> pm_entries := (pm_entries p)[unat (pg_last_entry g) :=
                        (pm_entries p ! unat (pg_last_entry g))\<lparr> pe_next_entry := new_index \<rparr>] \<rparr>);
          g' = g'\<lparr> pg_last_entry := new_index, pg_entry_count := pg_entry_count g' + 1 \<rparr>
      in (new_index, p\<lparr> pm_groups := (pm_groups p)[unat group_index := g'] \<rparr>))"

subsection \<open>Reading\<close>

definition ParsedSlotText :: "ParsedMessageData \<Rightarrow> ParsedFieldSlot \<Rightarrow> bytes" where
  "ParsedSlotText p slot =
     (if pm_raw p = [] \<or> sl_value_length slot = 0 then []
      else take (unat (sl_value_length slot)) (drop (unat (sl_value_offset slot)) (pm_raw p)))"

text \<open>\<^verbatim>\<open>std::from_chars\<close> for \<^verbatim>\<open>int64_t\<close>: an optional minus sign and the longest digit prefix, in range.\<close>

definition from_chars_i64 :: "bytes \<Rightarrow> (64 word \<times> nat) option" where
  "from_chars_i64 text =
     (let neg = (case text of c # _ \<Rightarrow> c = 45 | [] \<Rightarrow> False);
          ds = takeWhile is_digit (if neg then drop 1 text else text);
          v = (if neg then - int (digits_value ds) else int (digits_value ds))
      in if ds = [] \<or> v < - (2 ^ 63) \<or> v \<ge> 2 ^ 63 then None
         else Some (of_int v, length ds + (if neg then 1 else 0)))"

definition ParsedFieldView :: "(bytes \<Rightarrow> (u64 \<times> nat) option) \<Rightarrow> ParsedMessageData \<Rightarrow> ParsedFieldSlot \<Rightarrow> FieldView" where
  "ParsedFieldView fc p slot =
     (let text = ParsedSlotText p slot;
          view = FieldView_new\<lparr> vw_tag := sl_tag slot, vw_type := sl_type slot, vw_string_value := string_of text \<rparr>
      in case sl_type slot of
           kFieldInt \<Rightarrow>
             (case from_chars_i64 text of
                Some (v, used) \<Rightarrow> if used = length text then view\<lparr> vw_int_value := v \<rparr> else view
              | None \<Rightarrow> view)
         | kFieldChar \<Rightarrow> if length text = 1 then view\<lparr> vw_char_value := hd (string_of text) \<rparr> else view
         | kFieldFloat \<Rightarrow>
             (case fc text of
                Some (v, used) \<Rightarrow> if used = length text then view\<lparr> vw_float_value := v \<rparr> else view
              | None \<Rightarrow> view)
         | kFieldBoolean \<Rightarrow> view\<lparr> vw_bool_value := (text = bytes_of ''Y'') \<rparr>
         | kFieldString \<Rightarrow> view)"

definition FindParsedFieldInRoot :: "ParsedMessageData \<Rightarrow> u32 \<Rightarrow> ParsedFieldSlot option" where
  "FindParsedFieldInRoot p tag =
     (case QuickCacheSlotForTag tag of
        Some k \<Rightarrow>
          (let idx = pm_quick_cache p ! k
           in if idx \<noteq> kInvalidHashSlot then Some (pm_field_slots p ! unat idx) else None)
      | None \<Rightarrow>
          if unat tag < kFieldHashTableSize then
            (let packed = pm_field_hash_table p ! unat tag; gen = ucast (drop_bit 16 packed) :: u16
             in if gen = pm_field_generation p then Some (pm_field_slots p ! unat (and packed 0xFFFF)) else None)
          else map_option (\<lambda>i. pm_field_slots p ! unat i) (overflow_scan (pm_field_hash_overflow p) (ucast tag)))"

definition FindParsedField :: "ParsedMessageData \<Rightarrow> ParsedContainerRef \<Rightarrow> u32 \<Rightarrow> ParsedFieldSlot option" where
  "FindParsedField p container tag =
     (let entry = ResolveContainer p container
      in if pe_first_field_index entry = kInvalidParsedIndex \<or> pe_field_count entry = 0 then None
         else if container = RootContainer then FindParsedFieldInRoot p tag
         else map_option (\<lambda>i. pm_field_slots p ! unat i)
                (slot_scan (pm_field_slots p) (pe_first_field_index entry)
                   (pe_first_field_index entry + ucast (pe_field_count entry)) tag))"

definition NthParsedField :: "ParsedMessageData \<Rightarrow> ParsedEntryData \<Rightarrow> nat \<Rightarrow> ParsedFieldSlot option" where
  "NthParsedField p entry index =
     (if pe_first_field_index entry = kInvalidParsedIndex \<or> index \<ge> unat (pe_field_count entry) then None
      else Some (pm_field_slots p ! (unat (pe_first_field_index entry) + index)))"

definition FindParsedGroup :: "ParsedMessageData \<Rightarrow> ParsedEntryData \<Rightarrow> u32 \<Rightarrow> ParsedGroupFrame option" where
  "FindParsedGroup p entry count_tag =
     find (\<lambda>g. pg_count_tag g = count_tag) (map (\<lambda>g. pm_groups p ! unat g) (container_groups p entry))"

definition NthParsedGroup :: "ParsedMessageData \<Rightarrow> ParsedEntryData \<Rightarrow> nat \<Rightarrow> ParsedGroupFrame option" where
  "NthParsedGroup p entry index =
     (let gs = container_groups p entry
      in if index < length gs then Some (pm_groups p ! unat (gs ! index)) else None)"

text \<open>The entries of a group, linked by \<^verbatim>\<open>next_entry\<close>, walked with the number of entries as fuel.\<close>

primrec entry_walk :: "nat \<Rightarrow> ParsedMessageData \<Rightarrow> u32 \<Rightarrow> u32 list" where
  "entry_walk 0 p i = []"
| "entry_walk (Suc n) p i =
     (if i = kInvalidParsedIndex then [] else i # entry_walk n p (pe_next_entry (pm_entries p ! unat i)))"

definition group_entries :: "ParsedMessageData \<Rightarrow> ParsedGroupFrame \<Rightarrow> u32 list" where
  "group_entries p g = entry_walk (length (pm_entries p)) p (pg_first_entry g)"

definition NthParsedEntry :: "ParsedMessageData \<Rightarrow> ParsedGroupFrame \<Rightarrow> nat \<Rightarrow> u32 option" where
  "NthParsedEntry p g index =
     (let es = group_entries p g in if index < length es then Some (es ! index) else None)"

section \<open>Views\<close>

datatype MessageView =
    NullView
  | OwnedView MessageData
  | ParsedView ParsedMessageData bytes ParsedContainerRef

datatype GroupView =
    OwnedGroup GroupData
  | ParsedGroup ParsedMessageData ParsedGroupFrame

definition Message_view :: "MessageData \<Rightarrow> MessageView" where
  "Message_view m = OwnedView m"

definition ParsedMessage_view :: "ParsedMessageData \<Rightarrow> MessageView" where
  "ParsedMessage_view p = ParsedView p (pm_msg_type p) RootContainer"

fun view_valid :: "MessageView \<Rightarrow> bool" where
  "view_valid NullView = False"
| "view_valid _ = True"

fun view_msg_type :: "MessageView \<Rightarrow> string" where
  "view_msg_type NullView = []"
| "view_msg_type (OwnedView m) = md_msg_type m"
| "view_msg_type (ParsedView p t c) = string_of t"

fun view_field_count :: "MessageView \<Rightarrow> nat" where
  "view_field_count NullView = 0"
| "view_field_count (OwnedView m) = length (md_fields m)"
| "view_field_count (ParsedView p t c) = unat (pe_field_count (ResolveContainer p c))"

fun view_field_at :: "(bytes \<Rightarrow> (u64 \<times> nat) option) \<Rightarrow> MessageView \<Rightarrow> nat \<Rightarrow> FieldView option" where
  "view_field_at fc NullView index = None"
| "view_field_at fc (OwnedView m) index =
     (if index \<ge> length (md_fields m) then None else Some (owned_view (md_fields m ! index)))"
| "view_field_at fc (ParsedView p t c) index =
     map_option (ParsedFieldView fc p) (NthParsedField p (ResolveContainer p c) index)"

fun view_raw_field_at :: "MessageView \<Rightarrow> nat \<Rightarrow> (u32 \<times> string) option" where
  "view_raw_field_at NullView index = None"
| "view_raw_field_at (OwnedView m) index =
     (if index \<ge> length (md_fields m) then None
      else let f = md_fields m ! index
           in Some (fv_tag f, case fv_value f of VString s \<Rightarrow> s | _ \<Rightarrow> []))"
| "view_raw_field_at (ParsedView p t c) index =
     map_option (\<lambda>slot. (sl_tag slot, string_of (ParsedSlotText p slot))) (NthParsedField p (ResolveContainer p c) index)"

fun view_group_count :: "MessageView \<Rightarrow> nat" where
  "view_group_count NullView = 0"
| "view_group_count (OwnedView m) = length (md_groups m)"
| "view_group_count (ParsedView p t c) = unat (pe_group_count (ResolveContainer p c))"

fun view_group_at :: "MessageView \<Rightarrow> nat \<Rightarrow> GroupView option" where
  "view_group_at NullView index = None"
| "view_group_at (OwnedView m) index =
     (if index \<ge> length (md_groups m) then None else Some (OwnedGroup (md_groups m ! index)))"
| "view_group_at (ParsedView p t c) index =
     map_option (ParsedGroup p) (NthParsedGroup p (ResolveContainer p c) index)"

fun group_view_count_tag :: "GroupView \<Rightarrow> u32" where
  "group_view_count_tag (OwnedGroup g) = gd_count_tag g"
| "group_view_count_tag (ParsedGroup p g) = pg_count_tag g"

text \<open>The views a range-based loop over a group visits, from \<^verbatim>\<open>begin\<close> to \<^verbatim>\<open>end\<close>.\<close>

fun group_view_entries :: "GroupView \<Rightarrow> MessageView list" where
  "group_view_entries (OwnedGroup g) = map OwnedView (gd_entries g)"
| "group_view_entries (ParsedGroup p g) =
     (if pg_entry_count g = 0 then [] else map (\<lambda>i. ParsedView p [] (EntryContainer i)) (group_entries p g))"

fun find_field_view :: "(bytes \<Rightarrow> (u64 \<times> nat) option) \<Rightarrow> MessageView \<Rightarrow> u32 \<Rightarrow> FieldView option" where
  "find_field_view fc NullView tag = None"
| "find_field_view fc (OwnedView m) tag =
     (case FindField (md_fields m) tag of
        Some f \<Rightarrow> Some (owned_view f)
      | None \<Rightarrow>
          if tag = kMsgType \<and> md_msg_type m \<noteq> []
          then Some (FieldView_new\<lparr> vw_tag := kMsgType, vw_type := kFieldString, vw_string_value := md_msg_type m \<rparr>)
          else None)"
| "find_field_view fc (ParsedView p t c) tag =
     (case FindParsedField p c tag of
        Some slot \<Rightarrow> Some (ParsedFieldView fc p slot)
      | None \<Rightarrow>
          if tag = kMsgType \<and> t \<noteq> []
          then Some (FieldView_new\<lparr> vw_tag := kMsgType, vw_type := kFieldString, vw_string_value := string_of t \<rparr>)
          else None)"

fun has_field :: "MessageView \<Rightarrow> u32 \<Rightarrow> bool" where
  "has_field NullView tag = False"
| "has_field (OwnedView m) tag =
     (if FindField (md_fields m) tag \<noteq> None then True else tag = kMsgType \<and> md_msg_type m \<noteq> [])"
| "has_field (ParsedView p t c) tag =
     (if FindParsedField p c tag \<noteq> None then True else tag = kMsgType \<and> t \<noteq> [])"

definition get_string :: "(bytes \<Rightarrow> (u64 \<times> nat) option) \<Rightarrow> MessageView \<Rightarrow> u32 \<Rightarrow> string option" where
  "get_string fc view tag =
     (case find_field_view fc view tag of
        None \<Rightarrow> None
      | Some f \<Rightarrow> if vw_type f \<noteq> kFieldString then None else Some (vw_string_value f))"

definition get_int :: "(bytes \<Rightarrow> (u64 \<times> nat) option) \<Rightarrow> MessageView \<Rightarrow> u32 \<Rightarrow> 64 word option" where
  "get_int fc view tag =
     (case find_field_view fc view tag of
        None \<Rightarrow> None
      | Some f \<Rightarrow> if vw_type f \<noteq> kFieldInt then None else Some (vw_int_value f))"

definition get_char :: "(bytes \<Rightarrow> (u64 \<times> nat) option) \<Rightarrow> MessageView \<Rightarrow> u32 \<Rightarrow> char option" where
  "get_char fc view tag =
     (case find_field_view fc view tag of
        None \<Rightarrow> None
      | Some f \<Rightarrow> if vw_type f \<noteq> kFieldChar then None else Some (vw_char_value f))"

definition get_float :: "(bytes \<Rightarrow> (u64 \<times> nat) option) \<Rightarrow> MessageView \<Rightarrow> u32 \<Rightarrow> u64 option" where
  "get_float fc view tag =
     (case find_field_view fc view tag of
        None \<Rightarrow> None
      | Some f \<Rightarrow> if vw_type f \<noteq> kFieldFloat then None else Some (vw_float_value f))"

definition get_boolean :: "(bytes \<Rightarrow> (u64 \<times> nat) option) \<Rightarrow> MessageView \<Rightarrow> u32 \<Rightarrow> bool option" where
  "get_boolean fc view tag =
     (case find_field_view fc view tag of
        None \<Rightarrow> None
      | Some f \<Rightarrow> if vw_type f \<noteq> kFieldBoolean then None else Some (vw_bool_value f))"

fun view_group :: "MessageView \<Rightarrow> u32 \<Rightarrow> GroupView option" where
  "view_group NullView count_tag = None"
| "view_group (OwnedView m) count_tag = map_option OwnedGroup (FindGroup (md_groups m) count_tag)"
| "view_group (ParsedView p t c) count_tag = map_option (ParsedGroup p) (FindParsedGroup p (ResolveContainer p c) count_tag)"

text \<open>
  \<^verbatim>\<open>CopyViewToOwned\<close> recurses into the entries of every group. The recursion is bounded by the
  nesting depth of the message, which is given as fuel; \<^const>\<open>None\<close> means that it was not enough.
\<close>

fun CopyViewToOwned :: "(bytes \<Rightarrow> (u64 \<times> nat) option) \<Rightarrow> nat \<Rightarrow> MessageView \<Rightarrow> MessageData option" where
  "CopyViewToOwned fc 0 view = None"
| "CopyViewToOwned fc (Suc fuel) view =
     (let fs = List.map_filter (\<lambda>i. map_option to_owned (view_field_at fc view i)) [0..<view_field_count view];
          gs = List.map_filter (view_group_at view) [0..<view_group_count view];
          copied = map (\<lambda>g. those (map (CopyViewToOwned fc fuel) (group_view_entries g))) gs
      in case those copied of
           None \<Rightarrow> None
         | Some entries \<Rightarrow>
             Some (MessageData (view_msg_type view) fs (map2 (\<lambda>g es. GroupData (group_view_count_tag g) es) gs entries)))"


section \<open>Owned messages: laws\<close>

lemma FindField_UpsertField:
  "FindField (UpsertField fs v) tag = (if tag = fv_tag v then Some v else FindField fs tag)"
  by (induction fs) (auto simp: FindField_def)

lemma to_owned_owned_view [simp]: "to_owned (owned_view f) = f"
  by (cases "fv_value f") (simp_all add: to_owned_def owned_view_def FieldView_new_def)

text \<open>The nesting depth of an owned message: enough fuel for a deep copy.\<close>

primrec message_depth :: "MessageData \<Rightarrow> nat" and group_depth :: "GroupData \<Rightarrow> nat" where
  "message_depth (MessageData t fs gs) = Suc (Max (insert 0 (set (map group_depth gs))))"
| "group_depth (GroupData c es) = Max (insert 0 (set (map message_depth es)))"

lemma map_filter_all: "(\<And>x. x \<in> set xs \<Longrightarrow> g x = Some (h x)) \<Longrightarrow> List.map_filter g xs = map h xs"
  by (induction xs) (simp_all add: map_filter_simps)

lemma map_filter_upt:
  "List.map_filter (\<lambda>i. if length xs \<le> i then None else Some (f (xs ! i))) [0..<length xs] = map f xs"
  by (subst map_filter_all [where h = "\<lambda>i. f (xs ! i)"]) (auto intro: nth_equalityI)

lemma those_map_Some: "(\<And>x. x \<in> set xs \<Longrightarrow> f x = Some (g x)) \<Longrightarrow> those (map f xs) = Some (map g xs)"
  by (induction xs) auto

lemma CopyViewToOwned_owned:
  "message_depth m \<le> fuel \<Longrightarrow> CopyViewToOwned fc fuel (OwnedView m) = Some m"
proof (induction fuel arbitrary: m)
  case 0
  then show ?case by (cases m) simp
next
  case (Suc fuel)
  obtain t fs gs where m: "m = MessageData t fs gs" by (cases m)
  have depth: "message_depth e \<le> fuel" if "g \<in> set gs" "e \<in> set (gd_entries g)" for g e
  proof -
    have "group_depth g \<le> fuel" using Suc.prems that(1) by (auto simp: m)
    moreover have "message_depth e \<le> group_depth g" using that(2) by (cases g) auto
    ultimately show ?thesis by simp
  qed
  have entries: "those (map (CopyViewToOwned fc fuel) (group_view_entries (OwnedGroup g))) = Some (gd_entries g)"
    if "g \<in> set gs" for g
    using those_map_Some [of "gd_entries g" "\<lambda>e. CopyViewToOwned fc fuel (OwnedView e)" id] Suc.IH depth [OF that]
    by (simp add: o_def)
  have fields: "List.map_filter (\<lambda>i. map_option to_owned (view_field_at fc (OwnedView m) i)) [0..<length fs] = fs"
    using map_filter_upt [of fs "\<lambda>f. f"] by (simp add: m if_distrib [of "map_option to_owned"] cong: if_cong)
  have "view_group_at (OwnedView m) = (\<lambda>i. if length gs \<le> i then None else Some (OwnedGroup (gs ! i)))"
    by (rule ext) (simp add: m)
  then have groups: "List.map_filter (view_group_at (OwnedView m)) [0..<length gs] = map OwnedGroup gs"
    using map_filter_upt [of gs OwnedGroup] by simp
  have copied: "those (map (\<lambda>g. those (map (CopyViewToOwned fc fuel) (group_view_entries g))) (map OwnedGroup gs)) = Some (map gd_entries gs)"
    using those_map_Some [of gs "\<lambda>g. those (map (CopyViewToOwned fc fuel) (group_view_entries (OwnedGroup g)))" gd_entries] entries
    by (simp add: o_def)
  have "map2 (\<lambda>g es. GroupData (group_view_count_tag g) es) (map OwnedGroup gs) (map gd_entries gs) = gs"
    by (induction gs) auto
  then show ?case
    unfolding CopyViewToOwned.simps Let_def
    using fields groups copied by (simp add: m)
qed

section \<open>The index of the root fields\<close>

text \<open>An index entry packs the generation above a 16-bit slot index.\<close>

definition packed_gen :: "u32 \<Rightarrow> u16" where
  "packed_gen packed = ucast (drop_bit 16 packed)"

lemma packed_gen_or: "packed_gen (or (push_bit 16 (ucast (g :: u16))) (and i 0xFFFF)) = g"
proof (rule bit_word_eqI)
  fix n assume "n < LENGTH(16)"
  then show "bit (packed_gen (or (push_bit 16 (ucast g)) (and i 0xFFFF))) n = bit g n"
    using bit_mask_iff [where 'a = "32 word", of 16 "16 + n"]
    by (simp add: packed_gen_def bit_simps mask_eq_exp_minus_1)
qed

lemma packed_low:
  "and (or (push_bit 16 (ucast (g :: u16))) (and i 0xFFFF)) 0xFFFF = take_bit 16 (i :: u32)"
proof -
  have mask: "and w (0xFFFF :: u32) = take_bit 16 w" for w
    by (simp add: take_bit_eq_mask mask_eq_exp_minus_1)
  show ?thesis unfolding mask by (simp add: take_bit_push_bit)
qed

lemma packed_index_or:
  assumes "unat i < 65536"
  shows "and (or (push_bit 16 (ucast (g :: u16))) (and i 0xFFFF)) 0xFFFF = (i :: u32)"
proof -
  have "unat (take_bit 16 i) = unat i" using assms by (simp add: take_bit_eq_mod unat_mod)
  then show ?thesis unfolding packed_low by (simp only: word_unat_eq_iff)
qed

text \<open>
  What the direct-address table and the overflow list say of a tag, and what the quick cache says.
\<close>

definition root_index :: "ParsedMessageData \<Rightarrow> u32 \<Rightarrow> nat option" where
  "root_index p tag =
     (if unat tag < kFieldHashTableSize then
        (let packed = pm_field_hash_table p ! unat tag
         in if packed_gen packed = pm_field_generation p then Some (unat (and packed 0xFFFF)) else None)
      else map_option unat (overflow_scan (pm_field_hash_overflow p) (ucast tag)))"

definition cached_index :: "ParsedMessageData \<Rightarrow> nat \<Rightarrow> nat option" where
  "cached_index p k = (if pm_quick_cache p ! k = kInvalidHashSlot then None else Some (unat (pm_quick_cache p ! k)))"

definition points_to :: "ParsedMessageData \<Rightarrow> nat \<Rightarrow> u32 \<Rightarrow> bool" where
  "points_to p i tag \<longleftrightarrow> i < length (pm_field_slots p) \<and> sl_tag (pm_field_slots p ! i) = tag"

definition table_ok :: "ParsedMessageData \<Rightarrow> bool" where
  "table_ok p \<longleftrightarrow> length (pm_field_hash_table p) = kFieldHashTableSize \<and>
     length (pm_quick_cache p) = kQuickCacheSize \<and> pm_field_generation p \<noteq> 0 \<and>
     (\<forall>packed\<in>set (pm_field_hash_table p). packed_gen packed \<le> pm_field_generation p)"

text \<open>
  The invariant of a message whose slots all belong to the root: the table holds no entry of a
  later generation, the index gives exactly the slot of each tag (so tags are distinct), the quick
  cache agrees with it, and the root covers all slots.
\<close>

definition root_index_ok :: "ParsedMessageData \<Rightarrow> bool" where
  "root_index_ok p \<longleftrightarrow> table_ok p \<and> length (pm_field_slots p) < 65535 \<and>
     (\<forall>slot\<in>set (pm_field_slots p). unat (sl_tag slot) < 65536) \<and>
     even (length (pm_field_hash_overflow p)) \<and>
     (\<forall>tag. unat tag < 65536 \<longrightarrow> (\<forall>i. root_index p tag = Some i \<longleftrightarrow> points_to p i tag)) \<and>
     (\<forall>tag k. QuickCacheSlotForTag tag = Some k \<longrightarrow> cached_index p k = root_index p tag) \<and>
     pe_first_field_index (pm_root p) = (if pm_field_slots p = [] then kInvalidParsedIndex else 0) \<and>
     pe_field_count (pm_root p) = of_nat (length (pm_field_slots p))"

lemma FindParsedFieldInRoot_eq:
  assumes "root_index_ok p"
  shows "FindParsedFieldInRoot p tag = map_option (\<lambda>i. pm_field_slots p ! i) (root_index p tag)"
proof (cases "QuickCacheSlotForTag tag")
  case (Some k)
  then have "root_index p tag = cached_index p k" using assms unfolding root_index_ok_def by metis
  then show ?thesis using Some by (simp add: FindParsedFieldInRoot_def cached_index_def Let_def)
next
  case None
  then show ?thesis
    by (simp add: FindParsedFieldInRoot_def root_index_def packed_gen_def Let_def option.map_comp o_def)
qed

lemma FindParsedField_root:
  assumes ok: "root_index_ok p" and "unat tag < 65536"
  shows "FindParsedField p RootContainer tag = map_option (\<lambda>i. pm_field_slots p ! i) (root_index p tag)"
proof (cases "pm_field_slots p = []")
  case True
  then have "root_index p tag = None"
    using assms unfolding root_index_ok_def points_to_def by (cases "root_index p tag") auto
  with True show ?thesis using ok by (simp add: FindParsedField_def root_index_ok_def)
next
  case False
  have "length (pm_field_slots p) < 65535" using ok by (simp add: root_index_ok_def)
  then have "(of_nat (length (pm_field_slots p)) :: u16) \<noteq> 0"
    using False by (simp add: word_unat_eq_iff unat_of_nat)
  then show ?thesis using ok False FindParsedFieldInRoot_eq [OF ok]
    by (simp add: FindParsedField_def root_index_ok_def)
qed

lemma FindParsedFieldIndex_root:
  "FindParsedFieldIndex p RootContainer tag =
     (case root_index p tag of Some i \<Rightarrow> of_nat i | None \<Rightarrow> kInvalidParsedIndex)"
  by (simp add: FindParsedFieldIndex_def root_index_def packed_gen_def Let_def split: option.split)

lemma overflow_scan_append:
  "even (length xs) \<Longrightarrow> overflow_scan (xs @ [t, i]) tag =
     (case overflow_scan xs tag of Some j \<Rightarrow> Some j | None \<Rightarrow> if t = tag then Some i else None)"
  by (induction xs tag rule: overflow_scan.induct) auto

lemma less_is_suc_u16: "(w :: u16) + 1 \<noteq> 0 \<Longrightarrow> w < w + 1"
proof -
  assume nz: "w + 1 \<noteq> 0"
  have "unat w < 65536" using unsigned_less [of w] by simp
  then have "unat (w + 1) = Suc (unat w)"
    using nz by (auto simp: unat_word_ariths word_unat_eq_iff mod_Suc split: if_splits)
  then show ?thesis by (simp add: word_less_nat_alt)
qed

lemma table_ok_Reset:
  assumes "table_ok p"
  shows "table_ok (ResetForNewDecode p)"
    and "packed \<in> set (pm_field_hash_table (ResetForNewDecode p)) \<Longrightarrow>
           packed_gen packed < pm_field_generation (ResetForNewDecode p)"
proof -
  have less: "packed_gen packed < pm_field_generation (ResetForNewDecode p)"
    if "packed \<in> set (pm_field_hash_table (ResetForNewDecode p))" for packed
  proof (cases "pm_field_generation p + 1 = 0")
    case True
    then show ?thesis using that by (simp add: ResetForNewDecode_def Let_def packed_gen_def)
  next
    case False
    then have "pm_field_generation p < pm_field_generation p + 1"
      by (simp add: less_is_suc_u16)
    then show ?thesis using that False assms
      by (auto simp: ResetForNewDecode_def Let_def table_ok_def intro: le_less_trans)
  qed
  then show "packed \<in> set (pm_field_hash_table (ResetForNewDecode p)) \<Longrightarrow>
           packed_gen packed < pm_field_generation (ResetForNewDecode p)" .
  show "table_ok (ResetForNewDecode p)"
    using assms less by (auto simp: table_ok_def ResetForNewDecode_def Let_def intro: less_imp_le)
qed

lemma root_index_Reset:
  assumes "table_ok p"
  shows "root_index (ResetForNewDecode p) tag = None"
proof -
  let ?p = "ResetForNewDecode p"
  have "packed_gen (pm_field_hash_table ?p ! unat tag) < pm_field_generation ?p" if "unat tag < kFieldHashTableSize"
    using table_ok_Reset [OF assms] that by (simp add: table_ok_def)
  moreover have "pm_field_hash_overflow ?p = []" by (simp add: ResetForNewDecode_def Let_def)
  ultimately show ?thesis by (auto simp: root_index_def Let_def)
qed

lemma root_index_ok_Reset:
  assumes "table_ok p"
  shows "root_index_ok (ResetForNewDecode p)"
proof -
  let ?p = "ResetForNewDecode p"
  have empty: "pm_field_slots ?p = []" "pm_field_hash_overflow ?p = []" "pm_root ?p = ParsedEntryData_new"
      "pm_quick_cache ?p = replicate kQuickCacheSize kInvalidHashSlot"
    by (simp_all add: ResetForNewDecode_def Let_def)
  note none = root_index_Reset [OF assms]
  show ?thesis unfolding root_index_ok_def
    by (auto simp: table_ok_Reset [OF assms] empty none points_to_def cached_index_def ParsedEntryData_new_def
        QuickCacheSlotForTag_def split: if_splits)
qed

lemma root_index_lt: "\<lbrakk> root_index_ok p; unat tag < 65536; root_index p tag = Some i \<rbrakk> \<Longrightarrow> points_to p i tag \<and> i < 65535"
  by (auto simp: root_index_ok_def points_to_def)

text \<open>A tag that is already there is overwritten in place.\<close>

lemma Append_existing:
  assumes ok: "root_index_ok p" and t: "unat (sl_tag slot) < 65536" and i: "root_index p (sl_tag slot) = Some i"
  defines "p' \<equiv> p\<lparr> pm_field_slots := (pm_field_slots p)[i := slot] \<rparr>"
  shows "AppendParsedFieldSlot RootContainer slot p = (True, p')" and "root_index_ok p'" and "root_index p' = root_index p"
proof -
  have i': "points_to p i (sl_tag slot)" "i < 65535" using root_index_lt [OF ok t i] by auto
  then have "(of_nat i :: u32) \<noteq> kInvalidParsedIndex" and n: "unat (of_nat i :: u32) = i"
    by (simp_all add: word_unat_eq_iff unat_of_nat)
  then show "AppendParsedFieldSlot RootContainer slot p = (True, p')"
    by (simp add: AppendParsedFieldSlot_def FindParsedFieldIndex_root i p'_def)
  show same: "root_index p' = root_index p" by (simp add: fun_eq_iff root_index_def p'_def)
  have "points_to p' = points_to p"
    using i' by (auto simp: points_to_def p'_def nth_list_update fun_eq_iff)
  moreover have "cached_index p' = cached_index p" by (simp add: cached_index_def p'_def fun_eq_iff)
  moreover have "\<forall>s\<in>set (pm_field_slots p'). unat (sl_tag s) < 65536"
    using ok t set_update_subset_insert [of "pm_field_slots p" i slot] by (auto simp: p'_def root_index_ok_def)
  moreover have "table_ok p' = table_ok p" by (simp add: table_ok_def p'_def)
  moreover have "pm_root p' = pm_root p" "pm_field_hash_overflow p' = pm_field_hash_overflow p"
      "length (pm_field_slots p') = length (pm_field_slots p)" "pm_field_slots p' = [] \<longleftrightarrow> pm_field_slots p = []"
    by (simp_all add: p'_def)
  ultimately show "root_index_ok p'" using ok unfolding root_index_ok_def same by simp
qed

definition with_slot :: "ParsedFieldSlot \<Rightarrow> ParsedMessageData \<Rightarrow> ParsedMessageData" where
  "with_slot slot p =
     (let n = of_nat (length (pm_field_slots p)); e = pm_root p
      in p\<lparr> pm_field_slots := pm_field_slots p @ [slot],
            pm_root := e\<lparr> pe_first_field_index := (if pe_first_field_index e = kInvalidParsedIndex then n else pe_first_field_index e),
                          pe_field_count := pe_field_count e + 1 \<rparr> \<rparr>)"

text \<open>A new tag goes to the end of the slots and into the index.\<close>

lemma Append_new:
  assumes "root_index p (sl_tag slot) = None"
  shows "AppendParsedFieldSlot RootContainer slot p =
     (False, cache_slot (sl_tag slot) (of_nat (length (pm_field_slots p)))
               (InsertIntoRootHashTable (of_nat (length (pm_field_slots p))) (with_slot slot p)))"
  using assms by (simp add: AppendParsedFieldSlot_def FindParsedFieldIndex_root with_slot_def Let_def)

lemma with_slot_simps:
  "pm_field_slots (with_slot slot p) = pm_field_slots p @ [slot]"
  "pm_field_hash_table (with_slot slot p) = pm_field_hash_table p"
  "pm_field_hash_overflow (with_slot slot p) = pm_field_hash_overflow p"
  "pm_field_generation (with_slot slot p) = pm_field_generation p"
  "pm_quick_cache (with_slot slot p) = pm_quick_cache p"
  by (simp_all add: with_slot_def Let_def)

lemma root_index_Append_new:
  assumes ok: "root_index_ok p" and t: "unat (sl_tag slot) < 65536" and new: "root_index p (sl_tag slot) = None"
    and tag: "unat tag < 65536"
  defines "n \<equiv> length (pm_field_slots p)"
  shows "root_index (cache_slot (sl_tag slot) (of_nat n) (InsertIntoRootHashTable (of_nat n) (with_slot slot p))) tag =
           (if tag = sl_tag slot then Some n else root_index p tag)"
proof -
  have n: "n < 65535" "length (pm_field_hash_table p) = kFieldHashTableSize" "even (length (pm_field_hash_overflow p))"
    using ok by (simp_all add: root_index_ok_def n_def table_ok_def)
  then have un: "unat (of_nat n :: u32) = n" "unat (of_nat n :: u16) = n" "(ucast (of_nat n :: u32) :: u16) = of_nat n"
    by (simp_all add: unat_of_nat word_unat_eq_iff unsigned_ucast_eq take_bit_eq_mod)
  have inj: "(ucast (sl_tag slot) :: u16) = ucast tag \<longleftrightarrow> sl_tag slot = tag"
    using t tag by (simp add: word_unat_eq_iff unsigned_ucast_eq take_bit_eq_mod)
  have inj': "unat (sl_tag slot) = unat tag \<longleftrightarrow> sl_tag slot = tag"
    by (simp add: word_unat_eq_iff)
  have pi: "and (or (push_bit 16 (ucast g)) (and (of_nat n) 0xFFFF)) 0xFFFF = (of_nat n :: u32)" for g :: u16
    using packed_index_or [of "of_nat n" g] n un by simp
  have cs: "root_index (cache_slot a b q) = root_index q" for a b q
    by (auto simp: cache_slot_def root_index_def fun_eq_iff split: option.splits)
  have nth: "(pm_field_slots p @ [slot]) ! n = slot" by (simp add: n_def)
  show ?thesis
  proof (cases "unat (sl_tag slot) < kFieldHashTableSize")
    case True
    then show ?thesis
      using n inj' by (simp add: cs InsertIntoRootHashTable_def with_slot_simps nth root_index_def Let_def
          packed_gen_or pi un nth_list_update)
  next
    case False
    then show ?thesis
      using n inj new by (simp add: cs InsertIntoRootHashTable_def with_slot_simps nth root_index_def Let_def
          overflow_scan_append un split: option.split)
  qed
qed

lemma root_index_ok_Append_new:
  assumes ok: "root_index_ok p" and t: "unat (sl_tag slot) < 65536" and new: "root_index p (sl_tag slot) = None"
    and room: "Suc (length (pm_field_slots p)) < 65535"
  defines "n \<equiv> length (pm_field_slots p)"
  defines "p' \<equiv> cache_slot (sl_tag slot) (of_nat n) (InsertIntoRootHashTable (of_nat n) (with_slot slot p))"
  shows "root_index_ok p'"
proof -
  have un: "unat (of_nat n :: u32) = n" "unat (ucast (of_nat n :: u32) :: u16) = n" 
    using room by (simp_all add: n_def unat_of_nat unsigned_ucast_eq take_bit_eq_mod)
  have tab: "length (pm_field_hash_table p) = kFieldHashTableSize" "length (pm_quick_cache p) = kQuickCacheSize"
      "pm_field_generation p \<noteq> 0" "even (length (pm_field_hash_overflow p))"
      "\<And>x. x \<in> set (pm_field_hash_table p) \<Longrightarrow> packed_gen x \<le> pm_field_generation p"
    using ok by (simp_all add: root_index_ok_def table_ok_def)
  have slots: "pm_field_slots p' = pm_field_slots p @ [slot]"
    by (simp add: p'_def cache_slot_def InsertIntoRootHashTable_def with_slot_simps Let_def split: option.split)
  have ri: "root_index p' tag = (if tag = sl_tag slot then Some n else root_index p tag)" if "unat tag < 65536" for tag
    using root_index_Append_new [OF ok t new that] by (simp add: p'_def n_def)
  have "table_ok p'"
    using tab set_update_subset_insert [of "pm_field_hash_table p"]
    by (fastforce simp: table_ok_def p'_def cache_slot_def InsertIntoRootHashTable_def with_slot_simps Let_def packed_gen_or
        split: option.split)
  moreover have "even (length (pm_field_hash_overflow p'))"
    using tab by (simp add: p'_def cache_slot_def InsertIntoRootHashTable_def with_slot_simps Let_def split: option.split)
  moreover have "root_index p' tag = Some i \<longleftrightarrow> points_to p' i tag" if "unat tag < 65536" for tag i
  proof -
    have "root_index p tag = Some i \<longleftrightarrow> points_to p i tag" and "\<not> points_to p i (sl_tag slot)"
      using ok that t new by (auto simp: root_index_ok_def)
    then show ?thesis using that by (auto simp: ri points_to_def slots nth_append n_def)
  qed
  moreover have "cached_index p' k = root_index p' tag" if k: "QuickCacheSlotForTag tag = Some k" for tag k
  proof -
    have "unat tag < 65536" "k < kQuickCacheSize" using k by (auto simp: QuickCacheSlotForTag_def split: if_splits)
    moreover have "cached_index p k = root_index p tag" using ok k by (simp add: root_index_ok_def)
    moreover have "QuickCacheSlotForTag (sl_tag slot) = Some k \<longleftrightarrow> tag = sl_tag slot"
      using k by (auto simp: QuickCacheSlotForTag_def split: if_splits)
    moreover have "pm_quick_cache p' = (case QuickCacheSlotForTag (sl_tag slot) of
        Some j \<Rightarrow> (pm_quick_cache p)[j := ucast (of_nat n :: u32)] | None \<Rightarrow> pm_quick_cache p)"
      by (simp add: p'_def cache_slot_def InsertIntoRootHashTable_def with_slot_simps Let_def split: option.split)
    moreover have "(ucast (of_nat n :: u32) :: u16) \<noteq> kInvalidHashSlot"
      using un room by (auto simp: word_unat_eq_iff n_def)
    ultimately show ?thesis
      using tab un k by (auto simp: ri cached_index_def nth_list_update split: option.splits)
  qed
  moreover have "pm_root p' = pm_root (with_slot slot p)"
    by (simp add: p'_def cache_slot_def InsertIntoRootHashTable_def Let_def split: option.split)
  then have "pe_first_field_index (pm_root p') = (if pm_field_slots p' = [] then kInvalidParsedIndex else 0)"
      "pe_field_count (pm_root p') = of_nat (length (pm_field_slots p'))"
    using ok by (simp_all add: slots with_slot_def Let_def root_index_ok_def)
  ultimately show ?thesis using ok t room by (simp add: root_index_ok_def slots)
qed

section \<open>Fields by tag\<close>

text \<open>
  The contract of a container of fields: what a lookup returns after an insertion. \<open>room n s\<close> says
  that \<open>s\<close> is well formed and has room for \<open>n\<close> more fields.
\<close>

locale fields_by_tag =
  fixes room :: "nat \<Rightarrow> 's \<Rightarrow> bool" and tag_ok :: "u32 \<Rightarrow> bool" and tag_of :: "'f \<Rightarrow> u32"
    and lookup :: "'s \<Rightarrow> u32 \<Rightarrow> 'f option" and put :: "'f \<Rightarrow> 's \<Rightarrow> 's"
  assumes room_put: "\<lbrakk> room (Suc n) s; tag_ok (tag_of f) \<rbrakk> \<Longrightarrow> room n (put f s)"
    and lookup_put: "\<lbrakk> room (Suc n) s; tag_ok (tag_of f); tag_ok t \<rbrakk> \<Longrightarrow>
      lookup (put f s) t = (if t = tag_of f then Some f else lookup s t)"
begin

lemma room_fold: "\<lbrakk> room (length fs + n) s; \<forall>f\<in>set fs. tag_ok (tag_of f) \<rbrakk> \<Longrightarrow> room n (fold put fs s)"
  by (induction fs arbitrary: s) (auto simp: room_put)

text \<open>Inserting a list of fields refines the update of a map: the last field of a tag wins.\<close>

lemma lookup_fold:
  "\<lbrakk> room (length fs + n) s; \<forall>f\<in>set fs. tag_ok (tag_of f); tag_ok t \<rbrakk> \<Longrightarrow>
     lookup (fold put fs s) t = fold (\<lambda>f m. m(tag_of f \<mapsto> f)) fs (lookup s) t"
proof (induction fs arbitrary: n rule: rev_induct)
  case (snoc f fs)
  then have "room (Suc n) (fold put fs s)" by (intro room_fold) auto
  then show ?case
    using snoc.prems lookup_put [of n "fold put fs s" f t] snoc.IH [of "Suc n"] by simp
qed simp

end

interpretation owned_fields: fields_by_tag "\<lambda>n fs. True" "\<lambda>t. True" fv_tag FindField "\<lambda>v fs. UpsertField fs v"
  by unfold_locales (auto simp: FindField_UpsertField)

definition root_room :: "nat \<Rightarrow> ParsedMessageData \<Rightarrow> bool" where
  "root_room n p \<longleftrightarrow> root_index_ok p \<and> length (pm_field_slots p) + n < 65535"

definition put_slot :: "ParsedFieldSlot \<Rightarrow> ParsedMessageData \<Rightarrow> ParsedMessageData" where
  "put_slot slot p = snd (AppendParsedFieldSlot RootContainer slot p)"

lemma root_index_None:
  assumes "root_index_ok p" and "unat tag < 65536"
  shows "root_index p tag = None \<longleftrightarrow> tag \<notin> set (map sl_tag (pm_field_slots p))"
proof -
  have "(\<exists>i. root_index p tag = Some i) \<longleftrightarrow> (\<exists>i. points_to p i tag)" using assms by (simp add: root_index_ok_def)
  also have "\<dots> \<longleftrightarrow> tag \<in> set (map sl_tag (pm_field_slots p))"
    by (simp only: points_to_def in_set_conv_nth) auto
  finally show ?thesis by auto
qed

text \<open>One root append, whichever branch it takes: invariant, index, slots, and the duplicate flag.\<close>

lemma put_slot_effect:
  assumes "root_room (Suc n) p" and t: "unat (sl_tag slot) < 65536"
  shows "root_room n (put_slot slot p)"
    and "unat tag < 65536 \<Longrightarrow> FindParsedField (put_slot slot p) RootContainer tag =
           (if tag = sl_tag slot then Some slot else FindParsedField p RootContainer tag)"
    and "fst (AppendParsedFieldSlot RootContainer slot p) \<longleftrightarrow> FindParsedField p RootContainer (sl_tag slot) \<noteq> None"
    and "map sl_tag (pm_field_slots (put_slot slot p)) =
           (let ts = map sl_tag (pm_field_slots p) in if sl_tag slot \<in> set ts then ts else ts @ [sl_tag slot])"
proof -
  have ok: "root_index_ok p" and len: "Suc (length (pm_field_slots p)) < 65535"
    using assms(1) by (auto simp: root_room_def)
  note find = FindParsedField_root [OF ok]
  have mem: "root_index p (sl_tag slot) = None \<longleftrightarrow> sl_tag slot \<notin> set (map sl_tag (pm_field_slots p))"
    using root_index_None [OF ok t] .
  have "root_room n (put_slot slot p) \<and>
     (unat tag < 65536 \<longrightarrow> FindParsedField (put_slot slot p) RootContainer tag =
           (if tag = sl_tag slot then Some slot else FindParsedField p RootContainer tag)) \<and>
     (fst (AppendParsedFieldSlot RootContainer slot p) \<longleftrightarrow> FindParsedField p RootContainer (sl_tag slot) \<noteq> None) \<and>
     map sl_tag (pm_field_slots (put_slot slot p)) =
           (let ts = map sl_tag (pm_field_slots p) in if sl_tag slot \<in> set ts then ts else ts @ [sl_tag slot])"
  proof (cases "root_index p (sl_tag slot)")
    case (Some i)
    let ?p = "p\<lparr> pm_field_slots := (pm_field_slots p)[i := slot] \<rparr>"
    note A = Append_existing [OF ok t Some]
    have i: "points_to p i (sl_tag slot)" using root_index_lt [OF ok t Some] by simp
    have "FindParsedField ?p RootContainer tag =
           (if tag = sl_tag slot then Some slot else FindParsedField p RootContainer tag)" if "unat tag < 65536"
      using find [OF that] FindParsedField_root [OF A(2) that] i Some root_index_lt [OF ok that]
      by (cases "root_index p tag") (auto simp: A(3) points_to_def nth_list_update)
    moreover have "map sl_tag ((pm_field_slots p)[i := slot]) = map sl_tag (pm_field_slots p)"
      using i by (simp add: map_update points_to_def list_update_same_conv)
    ultimately show ?thesis
      using A mem Some len assms(1) find [OF t] by (simp add: put_slot_def root_room_def)
  next
    case None
    let ?p = "snd (AppendParsedFieldSlot RootContainer slot p)"
    have ok': "root_index_ok ?p"
      using root_index_ok_Append_new [OF ok t None len] by (simp add: Append_new [OF None])
    have slots: "pm_field_slots ?p = pm_field_slots p @ [slot]"
      by (simp add: Append_new [OF None] cache_slot_def InsertIntoRootHashTable_def with_slot_simps Let_def split: option.split)
    have "FindParsedField ?p RootContainer tag =
           (if tag = sl_tag slot then Some slot else FindParsedField p RootContainer tag)" if "unat tag < 65536"
      using find [OF that] FindParsedField_root [OF ok' that] root_index_lt [OF ok that]
        root_index_Append_new [OF ok t None that] unfolding slots
      by (cases "root_index p tag") (auto simp: Append_new [OF None] points_to_def nth_append)
    then show ?thesis
      using ok' mem None assms(1) find [OF t] slots by (simp add: put_slot_def root_room_def Append_new [OF None])
  qed
  then show "root_room n (put_slot slot p)"
    and "unat tag < 65536 \<Longrightarrow> FindParsedField (put_slot slot p) RootContainer tag =
           (if tag = sl_tag slot then Some slot else FindParsedField p RootContainer tag)"
    and "fst (AppendParsedFieldSlot RootContainer slot p) \<longleftrightarrow> FindParsedField p RootContainer (sl_tag slot) \<noteq> None"
    and "map sl_tag (pm_field_slots (put_slot slot p)) =
           (let ts = map sl_tag (pm_field_slots p) in if sl_tag slot \<in> set ts then ts else ts @ [sl_tag slot])"
    by blast+
qed

interpretation root_fields: fields_by_tag root_room "\<lambda>t. unat t < 65536" sl_tag
    "\<lambda>p. FindParsedField p RootContainer" put_slot
  by unfold_locales (auto simp: put_slot_effect)

lemma AppendParsedFieldSlotFast_eq: "AppendParsedFieldSlotFast slot p = AppendParsedFieldSlot RootContainer slot p"
proof (cases "root_index p (sl_tag slot)")
  case None
  then show ?thesis
    unfolding Append_new [OF None]
    by (simp add: AppendParsedFieldSlotFast_def root_index_def packed_gen_def with_slot_def Let_def split: if_splits)
next
  case (Some i)
  have "and (w :: u32) 0xFFFF = take_bit 16 w" for w
    by (simp add: take_bit_eq_mask mask_eq_exp_minus_1)
  then have "and (w :: u32) 0xFFFF \<noteq> - 1" for w
    by (auto simp: word_unat_eq_iff take_bit_eq_mod unat_mod)
  moreover have "(ucast (z :: u16) :: u32) \<noteq> - 1" for z
    using unsigned_less [where 'a = nat, of z] by (auto simp: word_unat_eq_iff unsigned_ucast_eq take_bit_eq_mod)
  ultimately have "and (w :: u32) 0xFFFF \<noteq> - 1" "(ucast (z :: u16) :: u32) \<noteq> - 1" for w z by auto
  then show ?thesis using Some
    by (auto simp: AppendParsedFieldSlotFast_def AppendParsedFieldSlot_def FindParsedFieldIndex_root root_index_def packed_gen_def Let_def split: if_splits)
qed

section \<open>Every index is in range\<close>

definition link_ok :: "nat \<Rightarrow> u32 \<Rightarrow> bool" where
  "link_ok n i \<longleftrightarrow> i = kInvalidParsedIndex \<or> unat i < n"

text \<open>A link to the next element of a list points forwards.\<close>

definition next_ok :: "nat \<Rightarrow> nat \<Rightarrow> u32 \<Rightarrow> bool" where
  "next_ok n i j \<longleftrightarrow> j = kInvalidParsedIndex \<or> i < unat j \<and> unat j < n"

definition entry_ok :: "ParsedMessageData \<Rightarrow> ParsedEntryData \<Rightarrow> bool" where
  "entry_ok p e \<longleftrightarrow>
     (if pe_first_field_index e = kInvalidParsedIndex then pe_field_count e = 0
      else unat (pe_first_field_index e) + unat (pe_field_count e) \<le> length (pm_field_slots p)) \<and>
     link_ok (length (pm_groups p)) (pe_first_group e) \<and> link_ok (length (pm_groups p)) (pe_last_group e) \<and>
     (pe_first_group e = kInvalidParsedIndex \<longleftrightarrow> pe_last_group e = kInvalidParsedIndex)"

definition frame_ok :: "ParsedMessageData \<Rightarrow> ParsedGroupFrame \<Rightarrow> bool" where
  "frame_ok p g \<longleftrightarrow> link_ok (length (pm_entries p)) (pg_first_entry g) \<and> link_ok (length (pm_entries p)) (pg_last_entry g) \<and>
     (pg_first_entry g = kInvalidParsedIndex \<longleftrightarrow> pg_last_entry g = kInvalidParsedIndex)"

definition links_ok :: "ParsedMessageData \<Rightarrow> bool" where
  "links_ok p \<longleftrightarrow> entry_ok p (pm_root p) \<and> (\<forall>e\<in>set (pm_entries p). entry_ok p e) \<and> (\<forall>g\<in>set (pm_groups p). frame_ok p g) \<and>
     (\<forall>i<length (pm_entries p). next_ok (length (pm_entries p)) i (pe_next_entry (pm_entries p ! i))) \<and>
     (\<forall>i<length (pm_groups p). next_ok (length (pm_groups p)) i (pg_next_group (pm_groups p ! i)))"

definition index_ok :: "ParsedMessageData \<Rightarrow> bool" where
  "index_ok p \<longleftrightarrow> table_ok p \<and> even (length (pm_field_hash_overflow p)) \<and>
     (\<forall>tag i. root_index p tag = Some i \<longrightarrow> i < length (pm_field_slots p)) \<and>
     (\<forall>k i. k < kQuickCacheSize \<longrightarrow> cached_index p k = Some i \<longrightarrow> i < length (pm_field_slots p))"

fun container_ok :: "ParsedMessageData \<Rightarrow> ParsedContainerRef \<Rightarrow> bool" where
  "container_ok p RootContainer = True"
| "container_ok p (EntryContainer i) = (unat i < length (pm_entries p))"

text \<open>The messages a decoder can build: from a fresh or reused object by its building operations.\<close>

inductive built :: "ParsedMessageData \<Rightarrow> bool" where
  new: "built (ParsedMessageData_new\<lparr> pm_raw := raw \<rparr>)"
| reset: "built p \<Longrightarrow> built ((ResetForNewDecode p)\<lparr> pm_raw := raw, pm_msg_type := msg_type \<rparr>)"
| slot: "\<lbrakk> built p; container_ok p c; length (pm_field_slots p) < 2 ^ 32 - 1 \<rbrakk> \<Longrightarrow>
     built (snd (AppendParsedFieldSlot c s p))"
| group: "\<lbrakk> built p; container_ok p c; length (pm_groups p) < 2 ^ 32 - 1 \<rbrakk> \<Longrightarrow>
     built (snd (EnsureParsedGroup c count_tag depth p))"
| entry: "\<lbrakk> built p; unat g < length (pm_groups p); length (pm_entries p) < 2 ^ 32 - 1 \<rbrakk> \<Longrightarrow>
     built (snd (AppendParsedEntry g p))"

lemma link_ok_mono: "\<lbrakk> link_ok n i; n \<le> m \<rbrakk> \<Longrightarrow> link_ok m i" by (auto simp: link_ok_def)
lemma next_ok_mono: "\<lbrakk> next_ok n i j; n \<le> m \<rbrakk> \<Longrightarrow> next_ok m i j" by (auto simp: next_ok_def)

lemma entry_ok_mono:
  "\<lbrakk> entry_ok p e; length (pm_field_slots p) \<le> length (pm_field_slots q); length (pm_groups p) \<le> length (pm_groups q) \<rbrakk> \<Longrightarrow>
     entry_ok q e"
  by (auto simp: entry_ok_def intro: link_ok_mono)

lemma frame_ok_mono: "\<lbrakk> frame_ok p g; length (pm_entries p) \<le> length (pm_entries q) \<rbrakk> \<Longrightarrow> frame_ok q g"
  by (auto simp: frame_ok_def intro: link_ok_mono)

text \<open>An entry update that keeps the links keeps the structure.\<close>

lemma links_ok_update_container:
  assumes "links_ok p" and c: "container_ok p c"
    and "entry_ok p (f (ResolveContainer p c))" and "pe_next_entry (f (ResolveContainer p c)) = pe_next_entry (ResolveContainer p c)"
  shows "links_ok (update_container f c p)"
proof (cases c)
  case RootContainer
  then show ?thesis using assms by (auto simp: links_ok_def entry_ok_def frame_ok_def)
next
  case (EntryContainer i)
  let ?es = "(pm_entries p)[unat i := f (pm_entries p ! unat i)]"
  have "entry_ok p e" if "e \<in> set ?es" for e
    using assms EntryContainer that set_update_subset_insert [of "pm_entries p" "unat i"] by (auto simp: links_ok_def)
  moreover have "pe_next_entry (?es ! j) = pe_next_entry (pm_entries p ! j)" for j
    using assms(4) c EntryContainer by (cases "j = unat i") auto
  ultimately show ?thesis
    using assms(1) EntryContainer by (simp add: links_ok_def entry_ok_def frame_ok_def)
qed

lemma entry_ok_container: "\<lbrakk> links_ok p; container_ok p c \<rbrakk> \<Longrightarrow> entry_ok p (ResolveContainer p c)"
  by (cases c) (auto simp: links_ok_def)

lemma links_ok_cong:
  "\<lbrakk> links_ok p; pm_root q = pm_root p; pm_entries q = pm_entries p; pm_groups q = pm_groups p;
     length (pm_field_slots p) \<le> length (pm_field_slots q) \<rbrakk> \<Longrightarrow> links_ok q"
  by (auto simp: links_ok_def frame_ok_def intro: entry_ok_mono)

lemma index_ok_cong:
  "\<lbrakk> index_ok p; pm_field_hash_table q = pm_field_hash_table p; pm_field_hash_overflow q = pm_field_hash_overflow p;
     pm_field_generation q = pm_field_generation p; pm_quick_cache q = pm_quick_cache p;
     length (pm_field_slots p) \<le> length (pm_field_slots q) \<rbrakk> \<Longrightarrow> index_ok q"
proof -
  assume *: "index_ok p" "pm_field_hash_table q = pm_field_hash_table p" "pm_field_hash_overflow q = pm_field_hash_overflow p"
     "pm_field_generation q = pm_field_generation p" "pm_quick_cache q = pm_quick_cache p"
     "length (pm_field_slots p) \<le> length (pm_field_slots q)"
  then have "root_index q = root_index p" "cached_index q = cached_index p" "table_ok q = table_ok p"
    by (simp_all add: fun_eq_iff root_index_def cached_index_def table_ok_def)
  with * show ?thesis unfolding index_ok_def by (metis less_le_trans)
qed

lemma update_container_simps [simp]:
  "pm_field_slots (update_container f c p) = pm_field_slots p"
  "pm_groups (update_container f c p) = pm_groups p"
  "pm_field_hash_table (update_container f c p) = pm_field_hash_table p"
  "pm_field_hash_overflow (update_container f c p) = pm_field_hash_overflow p"
  "pm_field_generation (update_container f c p) = pm_field_generation p"
  "pm_quick_cache (update_container f c p) = pm_quick_cache p"
  "length (pm_entries (update_container f c p)) = length (pm_entries p)"
  by (cases c; simp)+

lemma Resolve_slots [simp]: "ResolveContainer (p\<lparr> pm_field_slots := x \<rparr>) c = ResolveContainer p c"
  by (cases c) simp_all

lemma container_ok_simps [simp]:
  "container_ok (p\<lparr> pm_field_slots := x \<rparr>) c = container_ok p c"
  "container_ok (p\<lparr> pm_groups := y \<rparr>) c = container_ok p c"
  by (cases c; simp)+

text \<open>The index of a new slot, stored in 16 bits, is in range even after truncation.\<close>

lemma index_ok_insert_table:
  assumes ok: "index_ok p" and n: "Suc n = length (pm_field_slots p)"
  shows "index_ok (InsertIntoRootHashTable (of_nat n) p)"
proof -
  let ?w = "of_nat n :: u32" and ?q = "InsertIntoRootHashTable (of_nat n) p"
  have w: "unat ?w \<le> n" by (simp add: unat_of_nat)
  have tr: "unat (take_bit 16 ?w) < length (pm_field_slots p)" "unat (ucast ?w :: u16) < length (pm_field_slots p)"
    using w n mod_less_eq_dividend [of "unat ?w" 65536]
    by (simp_all add: take_bit_eq_mod unat_mod unsigned_ucast_eq)
  note ok' = ok [unfolded index_ok_def table_ok_def]
  have same: "pm_quick_cache ?q = pm_quick_cache p" "pm_field_slots ?q = pm_field_slots p" "pm_field_generation ?q = pm_field_generation p"
    by (simp_all add: InsertIntoRootHashTable_def Let_def)
  have "i < length (pm_field_slots p)" if ri: "root_index ?q t = Some i" for t i
  proof (cases "root_index ?q t = root_index p t")
    case True
    with ri ok' show ?thesis by simp
  next
    case False
    then have "i = unat (take_bit 16 ?w) \<or> i = unat (ucast ?w :: u16)"
      using ri ok' by (auto simp: root_index_def InsertIntoRootHashTable_def Let_def packed_low overflow_scan_append
          nth_list_update split: if_splits option.splits)
    with tr show ?thesis by auto
  qed
  moreover have "table_ok ?q"
    using ok' set_update_subset_insert [of "pm_field_hash_table p"]
    by (fastforce simp: table_ok_def InsertIntoRootHashTable_def Let_def packed_gen_or)
  moreover have "even (length (pm_field_hash_overflow ?q))"
    using ok' by (simp add: InsertIntoRootHashTable_def Let_def)
  ultimately show ?thesis using ok' unfolding index_ok_def cached_index_def same by simp
qed

lemma index_ok_cache:
  assumes ok: "index_ok q" and n: "Suc n = length (pm_field_slots q)"
  shows "index_ok (cache_slot tag (of_nat n) q)"
proof (cases "QuickCacheSlotForTag tag")
  case (Some k)
  have "unat (ucast (of_nat n :: u32) :: u16) < length (pm_field_slots q)"
    using n mod_less_eq_dividend [of "unat (of_nat n :: u32)" 65536] mod_less_eq_dividend [of n "2 ^ 32"]
    by (simp add: unsigned_ucast_eq take_bit_eq_mod unat_of_nat)
  moreover have "root_index (cache_slot tag (of_nat n) q) = root_index q"
    by (simp add: fun_eq_iff root_index_def cache_slot_def split: option.split)
  moreover have "cached_index (cache_slot tag (of_nat n) q) j \<in> {cached_index q j, None, Some (unat (ucast (of_nat n :: u32) :: u16))}"
    if "j < kQuickCacheSize" for j
    using ok Some that
    by (cases "j = k") (simp_all add: index_ok_def table_ok_def cache_slot_def cached_index_def)
  moreover have "table_ok (cache_slot tag (of_nat n) q)"
    using ok Some by (simp add: index_ok_def table_ok_def cache_slot_def)
  ultimately show ?thesis
    using ok Some by (fastforce simp: index_ok_def cache_slot_def)
next
  case None
  then show ?thesis using ok by (simp add: cache_slot_def)
qed

definition appended :: "ParsedContainerRef \<Rightarrow> ParsedFieldSlot \<Rightarrow> ParsedMessageData \<Rightarrow> ParsedMessageData" where
  "appended c slot p = update_container (\<lambda>e. e\<lparr> pe_first_field_index :=
       (if pe_first_field_index e = kInvalidParsedIndex then of_nat (length (pm_field_slots p)) else pe_first_field_index e),
     pe_field_count := pe_field_count e + 1 \<rparr>) c (p\<lparr> pm_field_slots := pm_field_slots p @ [slot] \<rparr>)"

lemma AppendParsedFieldSlot_cases:
  "AppendParsedFieldSlot c slot p =
     (if FindParsedFieldIndex p c (sl_tag slot) \<noteq> kInvalidParsedIndex
      then (True, p\<lparr> pm_field_slots := (pm_field_slots p)[unat (FindParsedFieldIndex p c (sl_tag slot)) := slot] \<rparr>)
      else (False, if c = RootContainer
                   then cache_slot (sl_tag slot) (of_nat (length (pm_field_slots p)))
                          (InsertIntoRootHashTable (of_nat (length (pm_field_slots p))) (appended c slot p))
                   else appended c slot p))"
  by (simp add: AppendParsedFieldSlot_def appended_def Let_def)

lemma index_ok_Append:
  assumes "index_ok p"
  shows "index_ok (snd (AppendParsedFieldSlot c slot p))"
proof -
  have app: "index_ok (appended c slot p)" by (rule index_ok_cong [OF assms]) (simp_all add: appended_def)
  have "Suc (length (pm_field_slots p)) = length (pm_field_slots (appended c slot p))" by (simp add: appended_def)
  then have "index_ok (cache_slot (sl_tag slot) (of_nat (length (pm_field_slots p)))
                          (InsertIntoRootHashTable (of_nat (length (pm_field_slots p))) (appended c slot p)))"
    by (intro index_ok_cache index_ok_insert_table app) (simp_all add: InsertIntoRootHashTable_def Let_def)
  moreover have "index_ok (p\<lparr> pm_field_slots := (pm_field_slots p)[i := slot] \<rparr>)" for i
    by (rule index_ok_cong [OF assms]) simp_all
  ultimately show ?thesis using app by (auto simp: AppendParsedFieldSlot_cases)
qed

lemma links_ok_Append:
  assumes ok: "links_ok p" and c: "container_ok p c" and "length (pm_field_slots p) < 2 ^ 32 - 1"
  shows "links_ok (snd (AppendParsedFieldSlot c slot p))"
proof -
  let ?p = "p\<lparr> pm_field_slots := pm_field_slots p @ [slot] \<rparr>"
  have grow: "links_ok ?p" by (rule links_ok_cong [OF ok]) simp_all
  let ?e = "ResolveContainer p c" and ?n = "of_nat (length (pm_field_slots p)) :: u32"
  have "unat ?n = length (pm_field_slots p)" using assms(3) by (simp add: unat_of_nat)
  moreover have "unat (pe_field_count ?e + 1) \<le> Suc (unat (pe_field_count ?e))" by (simp add: unat_word_ariths)
  ultimately have "entry_ok ?p (?e\<lparr> pe_first_field_index := (if pe_first_field_index ?e = kInvalidParsedIndex then ?n else pe_first_field_index ?e),
     pe_field_count := pe_field_count ?e + 1 \<rparr>)"
    using entry_ok_container [OF ok c] assms(3) by (auto simp: entry_ok_def)
  then have app: "links_ok (appended c slot p)"
    unfolding appended_def using c
    by (intro links_ok_update_container grow) (simp_all only: container_ok_simps Resolve_slots, simp_all)
  have "links_ok (cache_slot t i (InsertIntoRootHashTable i (appended c slot p)))" for t i
    by (rule links_ok_cong [OF app]) (simp_all add: cache_slot_def InsertIntoRootHashTable_def Let_def split: option.split)
  moreover have "links_ok (p\<lparr> pm_field_slots := (pm_field_slots p)[i := slot] \<rparr>)" for i
    by (rule links_ok_cong [OF ok]) simp_all
  ultimately show ?thesis using app by (auto simp: AppendParsedFieldSlot_cases)
qed

definition new_frame :: "u32 \<Rightarrow> u16 \<Rightarrow> ParsedGroupFrame" where
  "new_frame count_tag depth = \<lparr> pg_count_tag = count_tag, pg_first_entry = kInvalidParsedIndex,
     pg_last_entry = kInvalidParsedIndex, pg_entry_count = 0, pg_depth = depth, pg_next_group = kInvalidParsedIndex \<rparr>"

lemma unat_of_nat_index: "n < 2 ^ 32 - 1 \<Longrightarrow> unat (of_nat n :: u32) = n \<and> (of_nat n :: u32) \<noteq> kInvalidParsedIndex"
  by (simp add: unat_of_nat word_unat_eq_iff)

lemma update_container_twice:
  "container_ok p c \<Longrightarrow> update_container f c (update_container g c p) = update_container (\<lambda>e. f (g e)) c p"
  by (cases c) simp_all

lemma Resolve_groups [simp]: "ResolveContainer (p\<lparr> pm_groups := x \<rparr>) c = ResolveContainer p c"
  by (cases c) simp_all

lemma links_ok_add_frame: "links_ok p \<Longrightarrow> links_ok (p\<lparr> pm_groups := pm_groups p @ [new_frame count_tag depth] \<rparr>)"
  by (auto simp: links_ok_def new_frame_def frame_ok_def link_ok_def next_ok_def nth_append intro: entry_ok_mono)

lemma links_ok_link_frame:
  assumes "links_ok p" and "Suc l < length (pm_groups p)" and "unat n = length (pm_groups p) - 1"
  shows "links_ok (p\<lparr> pm_groups := (pm_groups p)[l := (pm_groups p ! l)\<lparr> pg_next_group := n \<rparr>] \<rparr>)"
proof -
  let ?gs = "(pm_groups p)[l := (pm_groups p ! l)\<lparr> pg_next_group := n \<rparr>]"
  have "frame_ok p g" if "g \<in> set ?gs" for g
    using assms that set_update_subset_insert [of "pm_groups p" l] by (fastforce simp: links_ok_def frame_ok_def)
  moreover have "next_ok (length (pm_groups p)) i (pg_next_group (?gs ! i))" if "i < length (pm_groups p)" for i
    using assms that by (cases "i = l") (auto simp: links_ok_def next_ok_def)
  ultimately show ?thesis using assms(1) by (simp add: links_ok_def entry_ok_def frame_ok_def)
qed

lemma links_ok_Ensure:
  assumes ok: "links_ok p" and c: "container_ok p c" and len: "length (pm_groups p) < 2 ^ 32 - 1"
  shows "links_ok (snd (EnsureParsedGroup c count_tag depth p))"
proof (cases "FindParsedGroupIndex p c count_tag = kInvalidParsedIndex")
  case True
  define n :: u32 where "n = of_nat (length (pm_groups p))"
  define q where "q = p\<lparr> pm_groups := pm_groups p @ [new_frame count_tag depth] \<rparr>"
  have n: "unat n = length (pm_groups p)" "n \<noteq> kInvalidParsedIndex"
    using unat_of_nat_index [OF len] by (simp_all add: n_def)
  have q: "links_ok q" "container_ok q c" "ResolveContainer q c = ResolveContainer p c" "length (pm_groups q) = Suc (length (pm_groups p))"
    using ok c by (simp_all add: q_def links_ok_add_frame)
  have e: "entry_ok p (ResolveContainer p c)" "entry_ok q (ResolveContainer q c)"
    using entry_ok_container [OF ok c] entry_ok_container [OF q(1,2)] .
  show ?thesis
  proof (cases "pe_first_group (ResolveContainer p c) = kInvalidParsedIndex")
    case first: True
    have "snd (EnsureParsedGroup c count_tag depth p) = update_container
        (\<lambda>e. e\<lparr> pe_first_group := n, pe_last_group := n, pe_group_count := pe_group_count e + 1 \<rparr>) c q"
      using True first q(2) by (simp add: EnsureParsedGroup_def Let_def update_container_twice n_def q_def new_frame_def)
    then show ?thesis
      using e(2) n q by (auto simp: entry_ok_def link_ok_def intro!: links_ok_update_container)
  next
    case False
    let ?l = "unat (pe_last_group (ResolveContainer p c))"
    let ?r = "q\<lparr> pm_groups := (pm_groups q)[?l := (pm_groups q ! ?l)\<lparr> pg_next_group := n \<rparr>] \<rparr>"
    have "?l < length (pm_groups p)" using e(1) False by (auto simp: entry_ok_def link_ok_def)
    then have r: "links_ok ?r" using q n by (intro links_ok_link_frame) simp_all
    have "snd (EnsureParsedGroup c count_tag depth p) = update_container
        (\<lambda>e. e\<lparr> pe_last_group := n, pe_group_count := pe_group_count e + 1 \<rparr>) c ?r"
      using True False q(3) by (simp add: EnsureParsedGroup_def Let_def n_def q_def new_frame_def)
    then show ?thesis
      using e(2) n q r False by (auto simp: entry_ok_def link_ok_def intro!: links_ok_update_container)
  qed
next
  case False
  then show ?thesis using ok by (simp add: EnsureParsedGroup_def)
qed

lemma index_ok_Ensure: "index_ok p \<Longrightarrow> index_ok (snd (EnsureParsedGroup c count_tag depth p))"
  by (erule index_ok_cong) (simp_all add: EnsureParsedGroup_def Let_def)

lemma links_ok_add_entry: "links_ok p \<Longrightarrow> links_ok (p\<lparr> pm_entries := pm_entries p @ [ParsedEntryData_new] \<rparr>)"
  by (auto simp: links_ok_def ParsedEntryData_new_def entry_ok_def link_ok_def next_ok_def nth_append intro: frame_ok_mono)

lemma links_ok_link_entry:
  assumes "links_ok p" and "Suc l < length (pm_entries p)" and "unat n = length (pm_entries p) - 1"
  shows "links_ok (p\<lparr> pm_entries := (pm_entries p)[l := (pm_entries p ! l)\<lparr> pe_next_entry := n \<rparr>] \<rparr>)"
proof -
  let ?es = "(pm_entries p)[l := (pm_entries p ! l)\<lparr> pe_next_entry := n \<rparr>]"
  have "entry_ok p g" if "g \<in> set ?es" for g
    using assms that set_update_subset_insert [of "pm_entries p" l] by (fastforce simp: links_ok_def entry_ok_def)
  moreover have "next_ok (length (pm_entries p)) i (pe_next_entry (?es ! i))" if "i < length (pm_entries p)" for i
    using assms that by (cases "i = l") (auto simp: links_ok_def next_ok_def)
  ultimately show ?thesis using assms(1) by (simp add: links_ok_def entry_ok_def frame_ok_def)
qed

lemma links_ok_update_frame:
  assumes "links_ok p" and "i < length (pm_groups p)" and "frame_ok p g" and "pg_next_group g = pg_next_group (pm_groups p ! i)"
  shows "links_ok (p\<lparr> pm_groups := (pm_groups p)[i := g] \<rparr>)"
proof -
  have "frame_ok p h" if "h \<in> set ((pm_groups p)[i := g])" for h
    using assms that set_update_subset_insert [of "pm_groups p" i] by (auto simp: links_ok_def)
  moreover have "pg_next_group ((pm_groups p)[i := g] ! j) = pg_next_group (pm_groups p ! j)" for j
    using assms by (cases "j = i") auto
  ultimately show ?thesis using assms(1) by (simp add: links_ok_def entry_ok_def frame_ok_def)
qed

lemma links_ok_Entry:
  assumes ok: "links_ok p" and g: "unat g < length (pm_groups p)" and len: "length (pm_entries p) < 2 ^ 32 - 1"
  shows "links_ok (snd (AppendParsedEntry g p))"
proof -
  define n :: u32 where "n = of_nat (length (pm_entries p))"
  define q where "q = p\<lparr> pm_entries := pm_entries p @ [ParsedEntryData_new] \<rparr>"
  define f where "f = pm_groups p ! unat g"
  have n: "unat n = length (pm_entries p)" "n \<noteq> kInvalidParsedIndex"
    using unat_of_nat_index [OF len] by (simp_all add: n_def)
  have q: "links_ok q" "pm_groups q = pm_groups p" "length (pm_entries q) = Suc (length (pm_entries p))"
    using ok by (simp_all add: q_def links_ok_add_entry)
  have f: "frame_ok p f" using ok g by (simp add: links_ok_def f_def)
  let ?r = "q\<lparr> pm_entries := (pm_entries q)[unat (pg_last_entry f) := (pm_entries q ! unat (pg_last_entry f))\<lparr> pe_next_entry := n \<rparr>] \<rparr>"
  show ?thesis
  proof (cases "pg_first_entry f = kInvalidParsedIndex")
    case True
    then have "snd (AppendParsedEntry g p) = q\<lparr> pm_groups := (pm_groups q)[unat g :=
        f\<lparr> pg_first_entry := n, pg_last_entry := n, pg_entry_count := pg_entry_count f + 1 \<rparr>] \<rparr>"
      by (simp add: AppendParsedEntry_def Let_def n_def q_def f_def)
    moreover have "frame_ok q (f\<lparr> pg_first_entry := n, pg_last_entry := n, pg_entry_count := pg_entry_count f + 1 \<rparr>)"
      using n q by (simp add: frame_ok_def link_ok_def)
    ultimately show ?thesis using links_ok_update_frame [OF q(1)] g q(2) f_def by simp
  next
    case False
    then have "unat (pg_last_entry f) < length (pm_entries p)" using f by (auto simp: frame_ok_def link_ok_def)
    then have r: "links_ok ?r" using q n by (intro links_ok_link_entry) simp_all
    have "snd (AppendParsedEntry g p) = ?r\<lparr> pm_groups := (pm_groups ?r)[unat g :=
        f\<lparr> pg_last_entry := n, pg_entry_count := pg_entry_count f + 1 \<rparr>] \<rparr>"
      using False by (simp add: AppendParsedEntry_def Let_def n_def q_def f_def)
    moreover have "frame_ok ?r (f\<lparr> pg_last_entry := n, pg_entry_count := pg_entry_count f + 1 \<rparr>)"
      using f n q False by (auto simp: frame_ok_def link_ok_def)
    ultimately show ?thesis using links_ok_update_frame [OF r] g q(2) f_def by simp
  qed
qed

lemma index_ok_Entry: "index_ok p \<Longrightarrow> index_ok (snd (AppendParsedEntry g p))"
  by (erule index_ok_cong) (simp_all add: AppendParsedEntry_def Let_def)

lemma index_ok_Reset:
  assumes "table_ok p"
  shows "index_ok (ResetForNewDecode p)"
proof -
  let ?q = "ResetForNewDecode p"
  have ok: "root_index_ok ?q" using assms by (rule root_index_ok_Reset)
  have "root_index ?q tag = None" for tag using assms by (rule root_index_Reset)
  moreover have "cached_index ?q k = None" if "k < kQuickCacheSize" for k
    using that by (simp add: cached_index_def ResetForNewDecode_def Let_def)
  ultimately show ?thesis using ok by (simp add: index_ok_def root_index_ok_def)
qed

lemma built_ok: "built p \<Longrightarrow> links_ok p \<and> index_ok p"
proof (induction rule: built.induct)
  case (new raw)
  have "root_index (ParsedMessageData_new\<lparr> pm_raw := raw \<rparr>) tag = None" for tag
    by (simp add: root_index_def ParsedMessageData_new_def packed_gen_def Let_def)
  moreover have "cached_index (ParsedMessageData_new\<lparr> pm_raw := raw \<rparr>) k = None" if "k < kQuickCacheSize" for k
    using that by (simp add: cached_index_def ParsedMessageData_new_def)
  moreover have "table_ok (ParsedMessageData_new\<lparr> pm_raw := raw \<rparr>)"
    by (simp add: table_ok_def ParsedMessageData_new_def packed_gen_def)
  moreover have "links_ok (ParsedMessageData_new\<lparr> pm_raw := raw \<rparr>)"
    by (simp add: links_ok_def entry_ok_def link_ok_def ParsedMessageData_new_def ParsedEntryData_new_def)
  ultimately show ?case by (simp add: index_ok_def ParsedMessageData_new_def)
next
  case (reset p raw msg_type)
  let ?q = "ResetForNewDecode p"
  have "index_ok ?q" using reset index_ok_Reset [of p] by (simp add: index_ok_def)
  moreover have "links_ok ?q"
    by (simp add: links_ok_def entry_ok_def link_ok_def ResetForNewDecode_def ParsedEntryData_new_def Let_def)
  ultimately show ?case using index_ok_cong [of ?q] links_ok_cong [of ?q] by simp
next
  case (slot p c s)
  then show ?case by (simp add: links_ok_Append index_ok_Append)
next
  case (group p c count_tag depth)
  then show ?case by (simp add: links_ok_Ensure index_ok_Ensure)
next
  case (entry p g)
  then show ?case by (simp add: links_ok_Entry index_ok_Entry)
qed

text \<open>
  The lists of groups and entries are finite and acyclic: a walk with the number of elements as
  fuel ends at the null link.
\<close>

fun walk_ends :: "(u32 \<Rightarrow> u32) \<Rightarrow> u32 \<Rightarrow> u32 list \<Rightarrow> bool" where
  "walk_ends next i [] = (i = kInvalidParsedIndex)"
| "walk_ends next i (j # js) = (i = j \<and> i \<noteq> kInvalidParsedIndex \<and> walk_ends next (next i) js)"

lemma group_walk_ends:
  assumes "links_ok p" and "link_ok (length (pm_groups p)) g" and "g \<noteq> kInvalidParsedIndex \<Longrightarrow> length (pm_groups p) - unat g \<le> n"
  shows "walk_ends (\<lambda>g. pg_next_group (pm_groups p ! unat g)) g (group_walk n p g) \<and>
         (\<forall>h\<in>set (group_walk n p g). unat h < length (pm_groups p))"
  using assms(2,3)
proof (induction n arbitrary: g)
  case (Suc n)
  show ?case
  proof (cases "g = kInvalidParsedIndex")
    case False
    then have g: "unat g < length (pm_groups p)" using Suc.prems by (simp add: link_ok_def)
    let ?h = "pg_next_group (pm_groups p ! unat g)"
    have "next_ok (length (pm_groups p)) (unat g) ?h" using assms(1) g by (simp add: links_ok_def)
    then have "walk_ends (\<lambda>g. pg_next_group (pm_groups p ! unat g)) ?h (group_walk n p ?h) \<and>
         (\<forall>h\<in>set (group_walk n p ?h). unat h < length (pm_groups p))"
      using Suc.prems(2) False by (intro Suc.IH) (auto simp: link_ok_def next_ok_def)
    then show ?thesis using False g by simp
  qed simp
next
  case (0 g)
  then show ?case by (cases "g = kInvalidParsedIndex") (auto simp: link_ok_def)
qed

lemma entry_walk_ends:
  assumes "links_ok p" and "link_ok (length (pm_entries p)) g" and "g \<noteq> kInvalidParsedIndex \<Longrightarrow> length (pm_entries p) - unat g \<le> n"
  shows "walk_ends (\<lambda>g. pe_next_entry (pm_entries p ! unat g)) g (entry_walk n p g) \<and>
         (\<forall>h\<in>set (entry_walk n p g). unat h < length (pm_entries p))"
  using assms(2,3)
proof (induction n arbitrary: g)
  case (Suc n)
  show ?case
  proof (cases "g = kInvalidParsedIndex")
    case False
    then have g: "unat g < length (pm_entries p)" using Suc.prems by (simp add: link_ok_def)
    let ?h = "pe_next_entry (pm_entries p ! unat g)"
    have "next_ok (length (pm_entries p)) (unat g) ?h" using assms(1) g by (simp add: links_ok_def)
    then have "walk_ends (\<lambda>g. pe_next_entry (pm_entries p ! unat g)) ?h (entry_walk n p ?h) \<and>
         (\<forall>h\<in>set (entry_walk n p ?h). unat h < length (pm_entries p))"
      using Suc.prems(2) False by (intro Suc.IH) (auto simp: link_ok_def next_ok_def)
    then show ?thesis using False g by simp
  qed simp
next
  case (0 g)
  then show ?case by (cases "g = kInvalidParsedIndex") (auto simp: link_ok_def)
qed

text \<open>A message with a field 55, a group 453 of one entry with a field 448, and a field 10 after the group.\<close>

definition sample_slot :: "u32 \<Rightarrow> u32 \<Rightarrow> ParsedFieldSlot" where
  "sample_slot tag offset = MakeParsedFieldSlotWithType tag offset 1 kFieldString"

definition grouped_message :: ParsedMessageData where
  "grouped_message =
     (let p = ParsedMessageData_new\<lparr> pm_raw := bytes_of ''abcd'' \<rparr>;
          p = snd (AppendParsedFieldSlot RootContainer (sample_slot 55 0) p);
          p = snd (EnsureParsedGroup RootContainer 453 1 p);
          p = snd (AppendParsedEntry 0 p);
          p = snd (AppendParsedFieldSlot (EntryContainer 0) (sample_slot 448 1) p)
      in snd (AppendParsedFieldSlot RootContainer (sample_slot 10 2) p))"

lemma grouped_message_eq:
  "pm_field_slots grouped_message = [sample_slot 55 0, sample_slot 448 1, sample_slot 10 2]"
  "pe_first_field_index (pm_root grouped_message) = 0" "pe_field_count (pm_root grouped_message) = 2"
  "FindParsedField grouped_message RootContainer 10 = Some (sample_slot 10 2)"
  "pe_first_group (pm_root grouped_message) = 0" "length (pm_groups grouped_message) = 1"
  by code_simp+
lemma built_grouped: "built grouped_message"
proof -
  let ?p0 = "ParsedMessageData_new\<lparr> pm_raw := bytes_of ''abcd'' \<rparr>"
  let ?p1 = "snd (AppendParsedFieldSlot RootContainer (sample_slot 55 0) ?p0)"
  let ?p2 = "snd (EnsureParsedGroup RootContainer 453 1 ?p1)"
  let ?p3 = "snd (AppendParsedEntry 0 ?p2)"
  let ?p4 = "snd (AppendParsedFieldSlot (EntryContainer 0) (sample_slot 448 1) ?p3)"
  have n: "length (pm_field_slots ParsedMessageData_new) = 0" "length (pm_groups ?p1) = 0" "length (pm_groups ?p2) = 1" "length (pm_entries ?p2) = 0"
      "length (pm_entries ?p3) = 1" "length (pm_field_slots ?p3) = 1" "length (pm_field_slots ?p4) = 2"
    by code_simp+
  have "built ?p1" by (intro built.slot built.new) (simp_all add: n)
  then have "built ?p2" by (rule built.group) (simp_all add: n)
  then have "built ?p3" by (rule built.entry) (simp_all add: n)
  then have "built ?p4" by (rule built.slot) (simp_all add: n)
  then have "built (snd (AppendParsedFieldSlot RootContainer (sample_slot 10 2) ?p4))" by (rule built.slot) (simp_all add: n)
  then show ?thesis by (simp add: grouped_message_def Let_def)
qed

text \<open>Tags in the order of their first appearance.\<close>

definition first_tags :: "u32 list \<Rightarrow> u32 list" where
  "first_tags ts = fold (\<lambda>t acc. if t \<in> set acc then acc else acc @ [t]) ts []"

lemma slot_tags_fold:
  "\<lbrakk> root_room (length slots) p; \<forall>s\<in>set slots. unat (sl_tag s) < 65536 \<rbrakk> \<Longrightarrow>
     map sl_tag (pm_field_slots (fold put_slot slots p)) =
     fold (\<lambda>t acc. if t \<in> set acc then acc else acc @ [t]) (map sl_tag slots) (map sl_tag (pm_field_slots p))"
proof (induction slots arbitrary: p)
  case (Cons s slots)
  then have r: "root_room (length slots) (put_slot s p)" and t: "unat (sl_tag s) < 65536" by (simp_all add: put_slot_effect)
  show ?case using Cons.IH [OF r] Cons.prems put_slot_effect(4) [OF _ t, of "length slots" p] by (simp add: Let_def)
qed simp

lemma root_room_Reset: "\<lbrakk> built p; n < 65535 \<rbrakk> \<Longrightarrow> root_room n (ResetForNewDecode p)"
  using built_ok [of p] by (simp add: root_room_def index_ok_def root_index_ok_Reset) (simp add: ResetForNewDecode_def Let_def)

lemma find_after_upsert:
  "find_field_view fc (Message_view (upsert_field v m)) t =
     (if t = fv_tag v then Some (owned_view v) else find_field_view fc (Message_view m) t)"
  by (cases "FindField (md_fields m) t") (simp_all add: Message_view_def upsert_field_def FindField_UpsertField)

section \<open>Properties\<close>

text \<open>C23: In every message the decoder can build, whatever the history of decodes of the object, every index
  stored in the flat tables is in range: a slot index found in the direct-address table, the
  overflow list or the quick cache, the slots of the root and of every entry, and every link of the
  lists of groups and entries, which are acyclic, so that walking them ends.\<close>

theorem parsed_message_indices_in_range:
  assumes "built p" and "container_ok p c"
  defines "e \<equiv> ResolveContainer p c"
  shows "(\<forall>tag i. root_index p tag = Some i \<longrightarrow> i < length (pm_field_slots p)) \<and>
    (\<forall>k<kQuickCacheSize. \<forall>i. cached_index p k = Some i \<longrightarrow> i < length (pm_field_slots p)) \<and>
    (\<forall>i<unat (pe_field_count e). unat (pe_first_field_index e) + i < length (pm_field_slots p)) \<and>
    walk_ends (\<lambda>g. pg_next_group (pm_groups p ! unat g)) (pe_first_group e) (container_groups p e) \<and>
    (\<forall>g\<in>set (container_groups p e). unat g < length (pm_groups p) \<and>
       (let f = pm_groups p ! unat g
        in walk_ends (\<lambda>i. pe_next_entry (pm_entries p ! unat i)) (pg_first_entry f) (group_entries p f) \<and>
           (\<forall>i\<in>set (group_entries p f). container_ok p (EntryContainer i))))"
proof -
  have ok: "links_ok p" "index_ok p" using built_ok [OF assms(1)] by auto
  have e: "entry_ok p e" using entry_ok_container [OF ok(1) assms(2)] by (simp add: e_def)
  have walk: "walk_ends (\<lambda>g. pg_next_group (pm_groups p ! unat g)) (pe_first_group e) (container_groups p e) \<and>
    (\<forall>g\<in>set (container_groups p e). unat g < length (pm_groups p))"
    unfolding container_groups_def using e by (intro group_walk_ends ok) (simp_all add: entry_ok_def)
  have "walk_ends (\<lambda>i. pe_next_entry (pm_entries p ! unat i)) (pg_first_entry f) (group_entries p f) \<and>
      (\<forall>i\<in>set (group_entries p f). unat i < length (pm_entries p))" if "f \<in> set (pm_groups p)" for f
    unfolding group_entries_def using ok(1) that by (intro entry_walk_ends ok) (simp_all add: links_ok_def frame_ok_def)
  then have "\<forall>g\<in>set (container_groups p e). unat g < length (pm_groups p) \<and>
       (let f = pm_groups p ! unat g
        in walk_ends (\<lambda>i. pe_next_entry (pm_entries p ! unat i)) (pg_first_entry f) (group_entries p f) \<and>
           (\<forall>i\<in>set (group_entries p f). container_ok p (EntryContainer i)))"
    unfolding Let_def container_ok.simps using walk nth_mem by blast
  moreover have "\<forall>i<unat (pe_field_count e). unat (pe_first_field_index e) + i < length (pm_field_slots p)"
    using e by (auto simp: entry_ok_def split: if_splits)
  ultimately show ?thesis using walk ok(2) by (simp add: index_ok_def)
qed


theorem parsed_message_indices_in_range_witness:
  "unat (pe_first_field_index (pm_root grouped_message)) + 1 < length (pm_field_slots grouped_message) \<and>
   walk_ends (\<lambda>g. pg_next_group (pm_groups grouped_message ! unat g)) 0 [0] \<and> (0 :: nat) < length (pm_groups grouped_message)"
proof -
  have g: "container_groups grouped_message (pm_root grouped_message) = [0]" by code_simp
  show ?thesis
    using parsed_message_indices_in_range [OF built_grouped, of RootContainer]
    by (simp only: ResolveContainer.simps container_ok.simps g grouped_message_eq) simp
qed

text \<open>C22: Whatever an object held before, after a reset the root fields appended by a decode are found by tag
  through the generation-stamped table, the overflow list and the quick cache exactly as a map that
  is updated field by field would give them (the last field of a tag wins), they are enumerated by
  position in the order in which their tags first appeared, and the append reports a duplicate
  exactly when the tag was already there. Tags below 65536 and fewer than 65535 fields.\<close>

theorem root_fields_refine_map:
  assumes "built p" and "\<forall>s\<in>set slots. unat (sl_tag s) < 65536" and "length slots < 65534"
    and "unat tag < 65536" and "unat (sl_tag slot) < 65536"
  defines "q \<equiv> fold (\<lambda>s p. snd (AppendParsedFieldSlotFast s p)) slots (ResetForNewDecode p)"
  shows "FindParsedField q RootContainer tag = fold (\<lambda>s m. m(sl_tag s \<mapsto> s)) slots Map.empty tag \<and>
    map sl_tag (pm_field_slots q) = first_tags (map sl_tag slots) \<and>
    (\<forall>i<length (pm_field_slots q). NthParsedField q (pm_root q) i = Some (pm_field_slots q ! i)) \<and>
    (fst (AppendParsedFieldSlotFast slot q) \<longleftrightarrow> sl_tag slot \<in> sl_tag ` set slots)"
proof -
  let ?r = "ResetForNewDecode p"
  have q: "q = fold put_slot slots ?r"
    by (simp add: q_def put_slot_def [abs_def] AppendParsedFieldSlotFast_eq)
  have room: "root_room (length slots + 1) ?r" using assms by (intro root_room_Reset) auto
  then have room': "root_room 1 q" unfolding q using assms(2) by (intro root_fields.room_fold)
  have empty: "FindParsedField ?r RootContainer = Map.empty" "pm_field_slots ?r = []"
    by (simp_all add: fun_eq_iff FindParsedField_def ResetForNewDecode_def Let_def ParsedEntryData_new_def)
  have look: "FindParsedField q RootContainer t = fold (\<lambda>s m. m(sl_tag s \<mapsto> s)) slots Map.empty t" if "unat t < 65536" for t
    using root_fields.lookup_fold [OF room assms(2) that] unfolding q empty .
  have tags: "map sl_tag (pm_field_slots q) = first_tags (map sl_tag slots)"
    using slot_tags_fold [of slots ?r] assms(2) room by (simp add: q empty first_tags_def root_room_def)
  have dom: "fold (\<lambda>s m. m(sl_tag s \<mapsto> s)) slots m t \<noteq> None \<longleftrightarrow> t \<in> sl_tag ` set slots \<or> m t \<noteq> None" for t m
    by (induction slots arbitrary: m) auto
  have dup: "fst (AppendParsedFieldSlotFast slot q) \<longleftrightarrow> sl_tag slot \<in> sl_tag ` set slots"
    using put_slot_effect(3) [of 0 q slot] room' assms(5) look [OF assms(5)] dom [of "Map.empty" "sl_tag slot"]
    by (simp add: AppendParsedFieldSlotFast_eq)
  have "unat (of_nat (length (pm_field_slots q)) :: u16) = length (pm_field_slots q)"
    using room' by (simp add: root_room_def unat_of_nat)
  then have "NthParsedField q (pm_root q) i = Some (pm_field_slots q ! i)" if "i < length (pm_field_slots q)" for i
    using that room' by (auto simp: NthParsedField_def root_room_def root_index_ok_def)
  with look [OF assms(4)] tags dup show ?thesis by blast
qed

theorem root_fields_refine_map_witness:
  "FindParsedField (fold (\<lambda>s p. snd (AppendParsedFieldSlotFast s p)) [sample_slot 55 0, sample_slot 5000 1, sample_slot 55 2]
     (ResetForNewDecode grouped_message)) RootContainer 55 = Some (sample_slot 55 2)"
  using root_fields_refine_map [OF built_grouped, of "[sample_slot 55 0, sample_slot 5000 1, sample_slot 55 2]" 55 "sample_slot 10 3"]
  by (simp add: sample_slot_def MakeParsedFieldSlotWithType_def)


text \<open>C26: The overflow list keeps 16 bits of a tag: the lookups of two tags above 1023 that agree modulo 65536
  (such as 1024 and 66560) cannot be told apart.\<close>

theorem overflow_tags_alias:
  assumes "1024 \<le> unat tag" and "1024 \<le> unat tag'" and "unat tag mod 65536 = unat tag' mod 65536"
  shows "FindParsedField p RootContainer tag = FindParsedField p RootContainer tag'"
proof -
  have "(ucast tag :: u16) = ucast tag'"
    using assms(3) by (simp add: word_unat_eq_iff unsigned_ucast_eq take_bit_eq_mod)
  moreover have "QuickCacheSlotForTag t = None" if "1024 \<le> unat t" for t
    using that by (auto simp: QuickCacheSlotForTag_def)
  ultimately show ?thesis using assms(1,2) by (simp add: FindParsedField_def FindParsedFieldInRoot_def Let_def)
qed

theorem overflow_tags_alias_witness:
  "FindParsedField (put_slot (sample_slot 1024 0) (ResetForNewDecode grouped_message)) RootContainer 66560 = Some (sample_slot 1024 0)"
  using overflow_tags_alias [of 66560 1024 "put_slot (sample_slot 1024 0) (ResetForNewDecode grouped_message)"]
    put_slot_effect(2) [OF root_room_Reset [OF built_grouped], of 0 "sample_slot 1024 0" 1024]
  by (simp add: sample_slot_def MakeParsedFieldSlotWithType_def)

text \<open>C27: A slot keeps 16 bits of the length of its value: the text of a longer value is cut to the length
  modulo 65536, for every value inside the buffer.\<close>

theorem long_values_truncated:
  assumes "pm_raw p = pre @ value @ post" and "length pre < 2 ^ 32" and "length value < 2 ^ 32"
  shows "ParsedSlotText p (MakeParsedFieldSlotWithType tag (of_nat (length pre)) (of_nat (length value)) ty) =
     take (length value mod 65536) value"
proof -
  have "unat (ucast (of_nat (length value) :: u32) :: u16) = length value mod 65536"
    using assms(3) by (simp add: unsigned_ucast_eq take_bit_eq_mod unat_of_nat)
  moreover have "unat (of_nat (length pre) :: u32) = length pre" using assms(2) by (simp add: unat_of_nat)
  moreover have "length value mod 65536 \<le> length value" by simp
  moreover have "(ucast (of_nat (length value) :: u32) :: u16) = 0 \<longleftrightarrow> length value mod 65536 = 0"
    using calculation(1) by (metis unsigned_0 word_unat_eq_iff)
  ultimately show ?thesis
    using assms(1) by (simp add: ParsedSlotText_def MakeParsedFieldSlotWithType_def)
qed

theorem long_values_truncated_witness:
  "ParsedSlotText (ParsedMessageData_new\<lparr> pm_raw := replicate 65537 48 \<rparr>)
     (MakeParsedFieldSlotWithType 58 0 (of_nat 65537) kFieldString) = [48]"
  using long_values_truncated [of "ParsedMessageData_new\<lparr> pm_raw := replicate 65537 48 \<rparr>" "[]" "replicate 65537 48" "[]" 58 kFieldString]
  by (simp add: take_replicate)

text \<open>C24: The deep copy of an owned message is the message itself, and the fields set by the writer are read
  back with their type and value: the view of the written message finds, for every tag, the last
  value set for it, and the getters of the other types refuse it.\<close>

theorem owned_copy_and_writer_roundtrip:
  "CopyViewToOwned fc (message_depth m) (Message_view m) = Some m \<and>
   find_field_view fc (Message_view (upsert_field v m)) t =
     (if t = fv_tag v then Some (owned_view v) else find_field_view fc (Message_view m) t) \<and>
   get_string fc (Message_view (set_string tag s m)) tag = Some s \<and>
   get_int fc (Message_view (set_int tag i m)) tag = Some i \<and>
   get_char fc (Message_view (set_char tag c m)) tag = Some c \<and>
   get_float fc (Message_view (set_float tag d m)) tag = Some d \<and>
   get_boolean fc (Message_view (set_boolean tag b m)) tag = Some b \<and>
   get_int fc (Message_view (set_string tag s m)) tag = None"
  by (simp add: find_after_upsert CopyViewToOwned_owned [folded Message_view_def] set_string_def set_int_def set_char_def set_float_def set_boolean_def get_string_def get_int_def get_char_def get_float_def get_boolean_def
      owned_view_def FieldView_new_def)

end
