(* ===== verification/Fix_Timestamp.thy ===== *)
theory Fix_Timestamp
  imports Wire_Format
begin

text \<open>
  UTC timestamps: the formatter \<^verbatim>\<open>CurrentUtcTimestamp\<close> of \<^verbatim>\<open>codec/fix_codec.cpp\<close> and the parser
  \<^verbatim>\<open>ParseFixUtcTimestampNs\<close> of \<^verbatim>\<open>session/admin_protocol.cpp\<close> with the sending-time check that uses
  it. The proleptic Gregorian calendar of \<^verbatim>\<open>gmtime_r\<close> (from 1970 on) and \<^verbatim>\<open>std::chrono::sys_days\<close> is
  written out.
\<close>

section \<open>The calendar\<close>

definition is_leap :: "nat \<Rightarrow> bool" where
  "is_leap y \<longleftrightarrow> y mod 4 = 0 \<and> (y mod 100 \<noteq> 0 \<or> y mod 400 = 0)"

definition year_days :: "nat \<Rightarrow> nat" where
  "year_days y = (if is_leap y then 366 else 365)"

definition month_days :: "nat \<Rightarrow> nat \<Rightarrow> nat" where
  "month_days y m = (if m = 2 then (if is_leap y then 29 else 28) else if m \<in> {4, 6, 9, 11} then 30 else 31)"

text \<open>Days from 1970-01-01 to the first day of a year, and from there to the first of a month.\<close>

definition days_to_year :: "nat \<Rightarrow> int" where
  "days_to_year y = int (sum_list (map year_days [1970..<y])) - int (sum_list (map year_days [y..<1970]))"

definition days_to_month :: "nat \<Rightarrow> nat \<Rightarrow> nat" where
  "days_to_month y m = sum_list (map (month_days y) [1..<m])"

text \<open>\<^verbatim>\<open>sys_days\<close> of a date; \<^verbatim>\<open>year_month_day::ok\<close>.\<close>

definition sys_days :: "nat \<Rightarrow> nat \<Rightarrow> nat \<Rightarrow> int" where
  "sys_days y m d = days_to_year y + int (days_to_month y m) + (int d - 1)"

definition ymd_ok :: "nat \<Rightarrow> nat \<Rightarrow> nat \<Rightarrow> bool" where
  "ymd_ok y m d \<longleftrightarrow> 1 \<le> m \<and> m \<le> 12 \<and> 1 \<le> d \<and> d \<le> month_days y m"

text \<open>\<^verbatim>\<open>gmtime_r\<close>: the date of a day number, by walking years and then months.\<close>

function gm_year :: "nat \<Rightarrow> nat \<Rightarrow> nat \<times> nat" where
  "gm_year y n = (if n < year_days y then (y, n) else gm_year (Suc y) (n - year_days y))"
  by auto
termination by (relation "measure snd") (auto simp: year_days_def)

function gm_month :: "nat \<Rightarrow> nat \<Rightarrow> nat \<Rightarrow> nat \<times> nat" where
  "gm_month y m n = (if n < month_days y m then (m, n + 1) else gm_month y (Suc m) (n - month_days y m))"
  by auto
termination by (relation "measure (\<lambda>(_, _, n). n)") (auto simp: month_days_def)

declare gm_year.simps [simp del] gm_month.simps [simp del]

definition gm_date :: "nat \<Rightarrow> nat \<times> nat \<times> nat" where
  "gm_date days = (let (y, n) = gm_year 1970 days; (m, d) = gm_month y 1 n in (y, m, d))"

section \<open>Formatting\<close>

datatype TimestampResolution = kSeconds | kMilliseconds | kMicroseconds | kNanoseconds

definition digit_of :: "nat \<Rightarrow> u8" where
  "digit_of v = 48 + of_nat (v mod 10)"

definition WriteTwoDigits :: "nat \<Rightarrow> bytes" where
  "WriteTwoDigits value = [digit_of (value div 10), digit_of value]"

definition WriteThreeDigits :: "nat \<Rightarrow> bytes" where
  "WriteThreeDigits value = [digit_of (value div 100), digit_of (value div 10), digit_of value]"

definition WriteFourDigits :: "nat \<Rightarrow> bytes" where
  "WriteFourDigits value =
     [digit_of (value div 1000), digit_of (value div 100), digit_of (value div 10), digit_of value]"

definition WriteSixDigits :: "nat \<Rightarrow> bytes" where
  "WriteSixDigits value =
     [digit_of (value div 100000), digit_of (value div 10000), digit_of (value div 1000), digit_of (value div 100),
      digit_of (value div 10), digit_of value]"

definition WriteNineDigits :: "nat \<Rightarrow> bytes" where
  "WriteNineDigits value =
     [digit_of (value div 100000000), digit_of (value div 10000000), digit_of (value div 1000000),
      digit_of (value div 100000), digit_of (value div 10000), digit_of (value div 1000), digit_of (value div 100),
      digit_of (value div 10), digit_of value]"

text \<open>\<^verbatim>\<open>CurrentUtcTimestamp\<close> at the clock reading \<open>now\<close>, in nanoseconds since the epoch.\<close>

definition CurrentUtcTimestamp :: "nat \<Rightarrow> TimestampResolution \<Rightarrow> bytes" where
  "CurrentUtcTimestamp now resolution =
     (let seconds = now div 1000000000; fraction = now mod 1000000000;
          (year, month, day) = gm_date (seconds div 86400); tod = seconds mod 86400;
          base = WriteFourDigits year @ WriteTwoDigits month @ WriteTwoDigits day @ bytes_of ''-'' @
            WriteTwoDigits (tod div 3600) @ bytes_of '':'' @ WriteTwoDigits (tod mod 3600 div 60) @ bytes_of '':'' @
            WriteTwoDigits (tod mod 60)
      in case resolution of
           kSeconds \<Rightarrow> base
         | kMicroseconds \<Rightarrow> base @ bytes_of ''.'' @ WriteSixDigits (fraction div 1000)
         | kNanoseconds \<Rightarrow> base @ bytes_of ''.'' @ WriteNineDigits fraction
         | kMilliseconds \<Rightarrow> base @ bytes_of ''.'' @ WriteThreeDigits (fraction div 1000000))"

section \<open>Parsing\<close>

fun decimal_loop :: "bytes \<Rightarrow> u32 \<Rightarrow> u32 option" where
  "decimal_loop [] parsed = Some parsed"
| "decimal_loop (ch # rest) parsed =
     (if ch < 48 \<or> ch > 57 then None else decimal_loop rest (parsed * 10 + ucast (ch - 48)))"

definition ParseDecimal :: "bytes \<Rightarrow> nat \<Rightarrow> nat \<Rightarrow> u32 option" where
  "ParseDecimal text offset width =
     (if offset + width > length text then None else decimal_loop (take width (drop offset text)) 0)"

definition kFractionalNsScale :: "u32 list" where
  "kFractionalNsScale = [1, 100000000, 10000000, 1000000, 100000, 10000, 1000, 100, 10, 1]"

definition parse_fraction :: "bytes \<Rightarrow> u32 option" where
  "parse_fraction text =
     (if length text > 17 then
        (if text ! 17 \<noteq> 46 then None
         else let fractional = drop 18 text
              in if fractional = [] \<or> length fractional > 9 then None
                 else map_option (\<lambda>parsed. parsed * kFractionalNsScale ! length fractional) (decimal_loop fractional 0))
      else Some 0)"

text \<open>
  The duration arithmetic is done in signed 64-bit nanoseconds. A date before 1970 gives a
  negative count. An overflow is undefined in C++; here the result wraps around.
\<close>

definition exact_epoch_ns :: "nat \<Rightarrow> nat \<Rightarrow> nat \<Rightarrow> nat \<Rightarrow> nat \<Rightarrow> nat \<Rightarrow> nat \<Rightarrow> int" where
  "exact_epoch_ns year month day hour minute second fractional_ns =
     (sys_days year month day * 86400 + int (hour * 3600 + minute * 60 + second)) * 1000000000 + int fractional_ns"

definition epoch_ns :: "nat \<Rightarrow> nat \<Rightarrow> nat \<Rightarrow> nat \<Rightarrow> nat \<Rightarrow> nat \<Rightarrow> nat \<Rightarrow> 64 word" where
  "epoch_ns year month day hour minute second fractional_ns =
     of_int (exact_epoch_ns year month day hour minute second fractional_ns)"

definition ParseFixUtcTimestampNs :: "bytes \<Rightarrow> u64 option" where
  "ParseFixUtcTimestampNs text =
     (if length text < 17 \<or> text ! 8 \<noteq> 45 \<or> text ! 11 \<noteq> 58 \<or> text ! 14 \<noteq> 58 then None
      else case (ParseDecimal text 0 4, ParseDecimal text 4 2, ParseDecimal text 6 2,
                 ParseDecimal text 9 2, ParseDecimal text 12 2, ParseDecimal text 15 2) of
        (Some year, Some month, Some day, Some hour, Some minute, Some second) \<Rightarrow>
          (if hour > 23 \<or> minute > 59 \<or> second > 60 then None
           else case parse_fraction text of
             None \<Rightarrow> None
           | Some fractional_ns \<Rightarrow>
               if \<not> ymd_ok (unat year) (unat month) (unat day) then None
               else
                 let ns = epoch_ns (unat year) (unat month) (unat day) (unat hour) (unat minute) (unat second)
                            (unat fractional_ns)
                 in if sint ns < 0 then None else Some ns)
      | _ \<Rightarrow> None)"

definition SendingTimeOutsideThreshold :: "bytes \<Rightarrow> u64 \<Rightarrow> u32 \<Rightarrow> bool" where
  "SendingTimeOutsideThreshold sending_time timestamp_ns threshold_seconds =
     (if threshold_seconds = 0 \<or> sending_time = [] then False
      else case ParseFixUtcTimestampNs sending_time of
        None \<Rightarrow> False
      | Some parsed \<Rightarrow>
          let threshold_ns = ucast threshold_seconds * 1000000000
          in max parsed timestamp_ns - min parsed timestamp_ns > threshold_ns)"

section \<open>The calendar is a bijection\<close>

lemma gm_year_spec:
  "gm_year y n = (y', n') \<Longrightarrow> y \<le> y' \<and> n' < year_days y' \<and> sum_list (map year_days [y..<y']) + n' = n"
proof (induction y n rule: gm_year.induct)
  case (1 y n)
  show ?case
  proof (cases "n < year_days y")
    case True
    then show ?thesis using 1(2) by (simp add: gm_year.simps [of y])
  next
    case False
    then have "gm_year (Suc y) (n - year_days y) = (y', n')" using 1(2) by (simp add: gm_year.simps [of y])
    then have *: "Suc y \<le> y' \<and> n' < year_days y' \<and> sum_list (map year_days [Suc y..<y']) + n' = n - year_days y"
      using 1(1) False by simp
    then have "[y..<y'] = y # [Suc y..<y']" by (simp add: upt_rec)
    then show ?thesis using * False by (simp, linarith)
  qed
qed

lemma months_of_year: "sum_list (map (month_days y) [1..<13]) = year_days y"
  by (simp add: upt_rec month_days_def year_days_def)

lemma gm_month_spec:
  "\<lbrakk> gm_month y m n = (m', d); 1 \<le> m; n < sum_list (map (month_days y) [m..<13]) \<rbrakk> \<Longrightarrow>
     m \<le> m' \<and> m' \<le> 12 \<and> 1 \<le> d \<and> d \<le> month_days y m' \<and> sum_list (map (month_days y) [m..<m']) + d = n + 1"
proof (induction y m n rule: gm_month.induct)
  case (1 y m n)
  have "m < 13" using 1(4) by (cases "m < 13") auto
  then have up: "[m..<13] = m # [Suc m..<13]" by (simp add: upt_rec)
  show ?case
  proof (cases "n < month_days y m")
    case True
    then show ?thesis using 1(2) \<open>m < 13\<close> by (auto simp: gm_month.simps [of y m])
  next
    case False
    then have "gm_month y (Suc m) (n - month_days y m) = (m', d)" using 1(2) by (simp add: gm_month.simps [of y m])
    then have *: "Suc m \<le> m' \<and> m' \<le> 12 \<and> 1 \<le> d \<and> d \<le> month_days y m' \<and>
        sum_list (map (month_days y) [Suc m..<m']) + d = n - month_days y m + 1"
      using 1(1,4) False up by simp
    then have "[m..<m'] = m # [Suc m..<m']" by (simp add: upt_rec)
    then show ?thesis using * False by (simp, linarith)
  qed
qed

lemma gm_date_spec:
  assumes "gm_date days = (y, m, d)"
  shows "1970 \<le> y" and "ymd_ok y m d" and "sys_days y m d = int days" and "365 * (y - 1970) \<le> days"
proof -
  obtain n where yn: "gm_year 1970 days = (y, n)" and md: "gm_month y 1 n = (m, d)"
    using assms by (auto simp: gm_date_def Let_def split: prod.splits)
  note Y = gm_year_spec [OF yn]
  have "n < sum_list (map (month_days y) [1..<13])" using Y by (simp only: months_of_year)
  note M = gm_month_spec [OF md _ this]
  show "1970 \<le> y" using Y by simp
  show "ymd_ok y m d" using M by (simp add: ymd_ok_def)
  show "sys_days y m d = int days" using Y M by (simp add: sys_days_def days_to_year_def days_to_month_def)
  have "365 * length xs \<le> sum_list (map year_days xs)" for xs by (induction xs) (auto simp: year_days_def)
  from this [of "[1970..<y]"] show "365 * (y - 1970) \<le> days" using Y by simp
qed

section \<open>Digits\<close>

definition write_digits :: "nat \<Rightarrow> nat \<Rightarrow> bytes" where
  "write_digits n v = map digit_of (rev (map (\<lambda>k. v div 10 ^ k) [0..<n]))"

lemma write_digits_eqs:
  "WriteTwoDigits v = write_digits 2 v" "WriteThreeDigits v = write_digits 3 v" "WriteFourDigits v = write_digits 4 v"
  "WriteSixDigits v = write_digits 6 v" "WriteNineDigits v = write_digits 9 v"
  by (simp_all add: WriteTwoDigits_def WriteThreeDigits_def WriteFourDigits_def WriteSixDigits_def WriteNineDigits_def
      write_digits_def upt_rec)

lemma length_write_digits [simp]: "length (write_digits n v) = n"
  by (simp add: write_digits_def)

lemma write_digits_Nil: "write_digits n v = [] \<longleftrightarrow> n = 0"
  by (metis length_0_conv length_write_digits)

lemma digit_of_simps: "\<not> digit_of v < 48" "\<not> digit_of v > 57" "ucast (digit_of v - 48) = (of_nat (v mod 10) :: u32)"
proof -
  have "unat (digit_of v) = 48 + v mod 10" by (simp add: digit_of_def unat_word_ariths unat_of_nat)
  then show "\<not> digit_of v < 48" "\<not> digit_of v > 57" by (simp_all add: word_less_nat_alt)
  show "ucast (digit_of v - 48) = (of_nat (v mod 10) :: u32)"
    by (simp add: digit_of_def word_unat_eq_iff unsigned_ucast_eq unat_of_nat take_bit_eq_mod)
qed

lemma decimal_loop_digits:
  "decimal_loop (write_digits n v) p = Some (p * 10 ^ n + of_nat (v mod 10 ^ n))"
proof (induction n arbitrary: v p)
  case 0
  then show ?case by (simp add: write_digits_def)
next
  case (Suc n)
  have shape: "write_digits (Suc n) v = write_digits n (v div 10) @ [digit_of v]"
  proof -
    have "[0..<Suc n] = 0 # map Suc [0..<n]" by (simp add: map_Suc_upt upt_conv_Cons del: upt_Suc)
    then show ?thesis by (simp add: write_digits_def div_mult2_eq o_def del: upt_Suc)
  qed
  have app: "decimal_loop (xs @ ys) p = (case decimal_loop xs p of None \<Rightarrow> None | Some q \<Rightarrow> decimal_loop ys q)" for xs ys p
    by (induction xs p rule: decimal_loop.induct) auto
  have "v mod 10 ^ Suc n = 10 * (v div 10 mod 10 ^ n) + v mod 10"
    using mod_mult2_eq [of v 10 "10 ^ n"] by simp
  moreover have "decimal_loop [digit_of v] q = Some (q * 10 + of_nat (v mod 10))" for q
    by (simp add: digit_of_simps)
  ultimately show ?case by (simp add: shape app Suc.IH algebra_simps del: decimal_loop.simps)
qed

lemma decimal_field:
  assumes "v < 10 ^ n" and "10 ^ n \<le> (4294967296 :: nat)"
  shows "decimal_loop (write_digits n v) 0 = Some (of_nat v)" and "unat (of_nat v :: u32) = v"
  using assms by (simp_all add: decimal_loop_digits unat_of_nat)

section \<open>Round trip\<close>

definition fraction_digits :: "TimestampResolution \<Rightarrow> nat" where
  "fraction_digits r = (case r of kSeconds \<Rightarrow> 0 | kMilliseconds \<Rightarrow> 3 | kMicroseconds \<Rightarrow> 6 | kNanoseconds \<Rightarrow> 9)"

text \<open>Nanoseconds cut to a resolution.\<close>

definition truncate_ns :: "TimestampResolution \<Rightarrow> nat \<Rightarrow> nat" where
  "truncate_ns r now = now div 10 ^ (9 - fraction_digits r) * 10 ^ (9 - fraction_digits r)"

definition base_text :: "nat \<Rightarrow> nat \<Rightarrow> nat \<Rightarrow> nat \<Rightarrow> nat \<Rightarrow> nat \<Rightarrow> bytes" where
  "base_text y m d h mi se = write_digits 4 y @ write_digits 2 m @ write_digits 2 d @ [45] @
     write_digits 2 h @ [58] @ write_digits 2 mi @ [58] @ write_digits 2 se"

lemma CurrentUtcTimestamp_text:
  assumes "gm_date (now div 1000000000 div 86400) = (y, m, d)"
  defines "tod \<equiv> now div 1000000000 mod 86400"
  shows "CurrentUtcTimestamp now r = base_text y m d (tod div 3600) (tod mod 3600 div 60) (tod mod 60) @
     (if r = kSeconds then [] else 46 # write_digits (fraction_digits r) (now mod 1000000000 div 10 ^ (9 - fraction_digits r)))"
  using assms by (cases r) (simp_all add: CurrentUtcTimestamp_def base_text_def write_digits_eqs fraction_digits_def bytes_of_def Let_def)

lemma base_text_fields:
  assumes "y < 10000" "m < 100" "d < 100" "h < 100" "mi < 100" "se < 100"
  shows "length (base_text y m d h mi se) = 17" and "base_text y m d h mi se ! 8 = 45" and "base_text y m d h mi se ! 11 = 58"
    and "base_text y m d h mi se ! 14 = 58"
    and "ParseDecimal (base_text y m d h mi se @ z) 0 4 = Some (of_nat y)"
    and "ParseDecimal (base_text y m d h mi se @ z) 4 2 = Some (of_nat m)"
    and "ParseDecimal (base_text y m d h mi se @ z) 6 2 = Some (of_nat d)"
    and "ParseDecimal (base_text y m d h mi se @ z) 9 2 = Some (of_nat h)"
    and "ParseDecimal (base_text y m d h mi se @ z) 12 2 = Some (of_nat mi)"
    and "ParseDecimal (base_text y m d h mi se @ z) 15 2 = Some (of_nat se)"
  using assms decimal_field(1) [of y 4] decimal_field(1) [of m 2] decimal_field(1) [of d 2] decimal_field(1) [of h 2]
    decimal_field(1) [of mi 2] decimal_field(1) [of se 2]
  by (simp_all add: ParseDecimal_def base_text_def nth_append)

lemma parse_text:
  assumes "ymd_ok y m d" "y < 10000" "h \<le> 23" "mi \<le> 59" "se \<le> 60"
    and frac: "parse_fraction (base_text y m d h mi se @ z) = Some (of_nat g)" "unat (of_nat g :: u32) = g"
    and fits: "exact_epoch_ns y m d h mi se g = int v" "v < 2 ^ 63"
  shows "ParseFixUtcTimestampNs (base_text y m d h mi se @ z) = Some (of_nat v)"
proof -
  have "m < 100" "d < 100" "h < 100" "mi < 100" "se < 100"
    using assms by (auto simp: ymd_ok_def month_days_def split: if_splits)
  note F = base_text_fields [OF \<open>y < 10000\<close> this]
  have un: "unat (of_nat y :: u32) = y" "unat (of_nat m :: u32) = m" "unat (of_nat d :: u32) = d" "unat (of_nat h :: u32) = h"
      "unat (of_nat mi :: u32) = mi" "unat (of_nat se :: u32) = se"
    using \<open>y < 10000\<close> \<open>m < 100\<close> \<open>d < 100\<close> \<open>h < 100\<close> \<open>mi < 100\<close> \<open>se < 100\<close> by (simp_all add: unat_of_nat)
  have "sint (of_nat v :: 64 word) = int v"
    using fits(2) by (simp add: signed_of_nat signed_take_bit_int_eq_self)
  then show ?thesis
    unfolding ParseFixUtcTimestampNs_def
    using F un assms by (simp add: nth_append word_less_nat_alt epoch_ns_def Let_def)
qed

lemma parse_fraction_text:
  assumes "length b = 17" and "f < 10 ^ fraction_digits r"
  shows "parse_fraction (b @ (if r = kSeconds then [] else 46 # write_digits (fraction_digits r) f)) =
           Some (of_nat (f * 10 ^ (9 - fraction_digits r)))"
    and "unat (of_nat (f * 10 ^ (9 - fraction_digits r)) :: u32) = f * 10 ^ (9 - fraction_digits r)"
proof -
  have "f * 10 ^ (9 - fraction_digits r) < 10 ^ fraction_digits r * 10 ^ (9 - fraction_digits r)"
    using assms(2) by simp
  then show "unat (of_nat (f * 10 ^ (9 - fraction_digits r)) :: u32) = f * 10 ^ (9 - fraction_digits r)"
    by (cases r) (simp_all add: fraction_digits_def unat_of_nat del: of_nat_mult)
  show "parse_fraction (b @ (if r = kSeconds then [] else 46 # write_digits (fraction_digits r) f)) =
           Some (of_nat (f * 10 ^ (9 - fraction_digits r)))"
    using assms by (cases r) (simp_all add: parse_fraction_def nth_append fraction_digits_def decimal_loop_digits
        kFractionalNsScale_def write_digits_Nil Let_def)
qed

lemma truncate_ns_split:
  "truncate_ns r now = now div 1000000000 * 1000000000 +
     now mod 1000000000 div 10 ^ (9 - fraction_digits r) * 10 ^ (9 - fraction_digits r)"
proof -
  define B :: nat where "B = 10 ^ (9 - fraction_digits r)"
  define C :: nat where "C = 10 ^ fraction_digits r"
  have BC: "1000000000 = B * C" "0 < B" by (cases r; simp add: B_def C_def fraction_digits_def)+
  have "now = B * (C * (now div (B * C))) + now mod (B * C)"
    by (metis mult_div_mod_eq mult.assoc)
  then have "now div B = C * (now div (B * C)) + now mod (B * C) div B"
    using BC(2) by (metis div_mult_self4 less_not_refl)
  then show ?thesis unfolding truncate_ns_def B_def [symmetric] BC(1) by (simp add: algebra_simps)
qed

lemma clock_split: "(t :: nat) = t div 3600 * 3600 + t mod 3600 div 60 * 60 + t mod 60"
proof -
  have "t mod 60 = t mod 3600 mod 60" by (simp add: mod_mod_cancel)
  then show ?thesis using div_mult_mod_eq [of t 3600] div_mult_mod_eq [of "t mod 3600" 60] by linarith
qed

lemma clock_days:
  "int (s div 86400) * 86400 + int (s mod 86400 div 3600 * 3600 + s mod 86400 mod 3600 div 60 * 60 + s mod 86400 mod 60) = int s"
proof -
  have "int (s div 86400 * 86400 + s mod 86400) = int s" by (simp only: div_mult_mod_eq)
  then show ?thesis
    unfolding clock_split [of "s mod 86400", symmetric] by (simp only: of_nat_add of_nat_mult of_nat_numeral)
qed

lemma parse_current:
  assumes "now < 2 ^ 63"
  shows "ParseFixUtcTimestampNs (CurrentUtcTimestamp now r) = Some (of_nat (truncate_ns r now))"
proof -
  define sec where "sec = now div 1000000000"
  define f where "f = now mod 1000000000 div 10 ^ (9 - fraction_digits r)"
  obtain y m d where date: "gm_date (sec div 86400) = (y, m, d)" by (metis prod_cases3)
  note D = gm_date_spec [OF date]
  have "sec < 9223372037" using assms by (simp add: sec_def)
  then have "y < 10000" using D(4) by linarith
  define h where "h = sec mod 86400 div 3600"
  define mi where "mi = sec mod 86400 mod 3600 div 60"
  define se where "se = sec mod 86400 mod 60"
  define z where "z = (if r = kSeconds then [] else 46 # write_digits (fraction_digits r) f)"
  have clock: "h \<le> 23" "mi \<le> 59" "se \<le> 60"
    using mod_less_divisor [of 60 "sec mod 86400"] by (auto simp: h_def mi_def se_def)
  have stamp: "CurrentUtcTimestamp now r = base_text y m d h mi se @ z"
    using CurrentUtcTimestamp_text [of now y m d r] date by (simp add: sec_def f_def h_def mi_def se_def z_def)
  have "f < 10 ^ fraction_digits r"
    unfolding f_def by (cases r) (simp_all add: fraction_digits_def less_mult_imp_div_less)
  moreover have "length (base_text y m d h mi se) = 17" by (simp add: base_text_def)
  moreover define g where "g = f * 10 ^ (9 - fraction_digits r)"
  ultimately have frac: "parse_fraction (base_text y m d h mi se @ z) = Some (of_nat g)" "unat (of_nat g :: u32) = g"
    using parse_fraction_text [of "base_text y m d h mi se" f r] by (simp_all only: z_def)
  have "exact_epoch_ns y m d h mi se g = int (truncate_ns r now)"
    unfolding exact_epoch_ns_def D(3) truncate_ns_split sec_def [symmetric] f_def [symmetric] g_def h_def mi_def se_def
    by (simp only: clock_days [of sec, symmetric] of_nat_add of_nat_mult of_nat_numeral)
  moreover have "truncate_ns r now < 2 ^ 63"
    using assms by (rule le_less_trans [rotated]) (simp add: truncate_ns_def)
  ultimately show ?thesis unfolding stamp using D(2) \<open>y < 10000\<close> clock frac by (intro parse_text)
qed

section \<open>Properties\<close>

text \<open>C28: A timestamp the engine formats at any resolution parses back to the clock reading cut to that
  resolution, for every reading below \<^term>\<open>2 ^ 63 :: nat\<close> ns, and the sending-time check applied to it refuses
  the message exactly when its distance from the local clock exceeds the threshold.\<close>

theorem timestamp_roundtrip:
  assumes "now < 2 ^ 63"
  shows "ParseFixUtcTimestampNs (CurrentUtcTimestamp now r) = Some (of_nat (truncate_ns r now)) \<and>
    (SendingTimeOutsideThreshold (CurrentUtcTimestamp now r) timestamp_ns threshold \<longleftrightarrow>
       threshold \<noteq> 0 \<and> \<bar>int (unat timestamp_ns) - int (truncate_ns r now)\<bar> > int (unat threshold) * 1000000000)"
proof -
  let ?t = "truncate_ns r now"
  have "?t \<le> now" by (simp add: truncate_ns_def)
  then have un: "unat (of_nat ?t :: u64) = ?t" using assms by (simp add: unat_of_nat)
  have "unat threshold * 1000000000 < 18446744073709551616" using unat_lt_2p32 [of threshold] by linarith
  then have th: "unat (ucast threshold * 1000000000 :: u64) = unat threshold * 1000000000"
    by (simp add: unat_word_ariths unsigned_ucast_eq take_bit_eq_mod)
  have diff: "int (unat (max a b - min a b)) = \<bar>int (unat b) - int (unat a)\<bar>" for a b :: u64
    by (auto simp: max_def min_def uint_sub_if' word_le_def)
  have gt: "w < v \<longleftrightarrow> int (unat w) < int (unat v)" for v w :: u64 by (simp add: word_less_def)
  have "CurrentUtcTimestamp now r \<noteq> []"
    using parse_current [OF assms, of r] by (auto simp: ParseFixUtcTimestampNs_def)
  then show ?thesis
    using parse_current [OF assms, of r]
    by (simp only: SendingTimeOutsideThreshold_def option.case Let_def gt diff un th if_False simp_thms of_nat_mult of_nat_numeral) auto
qed

theorem timestamp_roundtrip_witness:
  "ParseFixUtcTimestampNs (CurrentUtcTimestamp 1767225600123456789 kMilliseconds) = Some 1767225600123000000"
  using timestamp_roundtrip [of 1767225600123456789 kMilliseconds] by (simp add: truncate_ns_def fraction_digits_def)



end
