(* ===== verification/Admin_Frames.thy ===== *)
theory Admin_Frames
  imports Raw_Passthrough Fix_Timestamp
begin

text \<open>
  The framing helpers of \<^verbatim>\<open>session/admin_protocol.cpp\<close>: the scan that finds where the body of an
  outbound frame starts before the frame is stored, and the encoder that puts the session header
  and trailer around a pre-encoded application body.
\<close>

section \<open>Where the body starts\<close>

text \<open>The loop that reads a tag; a character that is not a digit ends the scan.\<close>

fun tag_loop :: "bytes \<Rightarrow> u32 \<Rightarrow> u32 option" where
  "tag_loop [] tag = Some tag"
| "tag_loop (c # cs) tag = (if is_digit c then tag_loop cs (tag * 10 + ucast (c - 48)) else None)"

function body_start_loop :: "bytes \<Rightarrow> nat \<Rightarrow> nat \<Rightarrow> nat" where
  "body_start_loop data pos last_header_end =
     (if pos < length data then
        (let eq = pos + length (takeWhile (\<lambda>b. b \<noteq> 61) (drop pos data))
         in if eq \<ge> length data \<or> eq = pos then last_header_end
            else case tag_loop (take (eq - pos) (drop pos data)) 0 of
                   None \<Rightarrow> last_header_end
                 | Some tag \<Rightarrow>
                     (let soh = eq + 1 + length (takeWhile (\<lambda>b. b \<noteq> kFixSoh) (drop (eq + 1) data))
                      in if soh \<ge> length data then last_header_end
                         else if IsAggregateSessionEnvelopeTag tag then body_start_loop data (soh + 1) (soh + 1)
                         else last_header_end))
      else last_header_end)"
  by auto
termination by (relation "measure (\<lambda>(data, pos, _). length data - pos)") auto

declare body_start_loop.simps [simp del]

definition ComputeBodyStartOffset :: "bytes \<Rightarrow> u32" where
  "ComputeBodyStartOffset frame = of_nat (body_start_loop frame 0 0)"

section \<open>Pre-encoded application messages\<close>

record EncodeOptions =
  eo_begin_string :: bytes
  eo_sender_comp_id :: bytes
  eo_sender_sub_id :: bytes
  eo_target_comp_id :: bytes
  eo_target_sub_id :: bytes
  eo_on_behalf_of_comp_id :: bytes
  eo_deliver_to_comp_id :: bytes
  eo_default_appl_ver_id :: bytes
  eo_appl_ver_id :: bytes
  eo_sending_time :: bytes
  eo_orig_sending_time :: bytes
  eo_timestamp_resolution :: TimestampResolution
  eo_msg_seq_num :: u32
  eo_poss_dup :: bool
  eo_poss_resend :: bool
  eo_delimiter :: u8

definition EncodeOptions_new :: EncodeOptions where
  "EncodeOptions_new =
     \<lparr> eo_begin_string = bytes_of ''FIX.4.4'', eo_sender_comp_id = [], eo_sender_sub_id = [], eo_target_comp_id = [],
       eo_target_sub_id = [], eo_on_behalf_of_comp_id = [], eo_deliver_to_comp_id = [], eo_default_appl_ver_id = [],
       eo_appl_ver_id = [], eo_sending_time = [], eo_orig_sending_time = [], eo_timestamp_resolution = kMilliseconds,
       eo_msg_seq_num = 0, eo_poss_dup = False, eo_poss_resend = False, eo_delimiter = kFixSoh \<rparr>"

record EncodedOutboundExtrasView =
  ex_header_fragment :: bytes
  ex_body_fragment :: bytes

definition no_extras :: EncodedOutboundExtrasView where
  "no_extras = \<lparr> ex_header_fragment = [], ex_body_fragment = [] \<rparr>"

definition extras_empty :: "EncodedOutboundExtrasView \<Rightarrow> bool" where
  "extras_empty ex \<longleftrightarrow> ex_header_fragment ex = [] \<and> ex_body_fragment ex = []"

record EncodedApplicationMessageView =
  am_msg_type :: bytes
  am_body :: bytes
  am_extras :: EncodedOutboundExtrasView

definition am_valid :: "EncodedApplicationMessageView \<Rightarrow> bool" where
  "am_valid m \<longleftrightarrow> am_msg_type m \<noteq> []"

text \<open>
  \<^verbatim>\<open>EncodePreEncodedApplicationToBuffer\<close> on a non-null buffer; the result is the buffer's contents.
  \<open>now\<close> is the reading of the system clock in nanoseconds.
\<close>

definition EncodePreEncodedApplicationToBuffer ::
    "nat \<Rightarrow> EncodedApplicationMessageView \<Rightarrow> EncodeOptions \<Rightarrow> EncodedOutboundExtrasView \<Rightarrow> bytes Result" where
  "EncodePreEncodedApplicationToBuffer now message options extras =
     (if \<not> am_valid message then Inl (InvalidArgument ''encoded application message is invalid'')
      else
        let delimiter = (if eo_delimiter options = 0 then kFixSoh else eo_delimiter options);
            begin_string = (if eo_begin_string options = [] then bytes_of ''FIX.4.4'' else eo_begin_string options);
            out = kBeginStringPrefix @ begin_string @ [delimiter];
            out = out @ kBodyLengthPrefix;
            body_length_offset = length out;
            out = out @ replicate kBodyLengthPlaceholderWidth 48 @ [delimiter];
            body_start = length out;
            out = AppendStringField out kMsgTypePrefix (am_msg_type message) delimiter;
            out = AppendCountField out kMsgSeqNumPrefix (if eo_msg_seq_num options = 0 then 1 else eo_msg_seq_num options) delimiter;
            out = append_unless_empty out kSenderCompIDPrefix (eo_sender_comp_id options) delimiter;
            out = append_unless_empty out kSenderSubIDPrefix (eo_sender_sub_id options) delimiter;
            out = append_unless_empty out kTargetCompIDPrefix (eo_target_comp_id options) delimiter;
            out = append_unless_empty out kTargetSubIDPrefix (eo_target_sub_id options) delimiter;
            sending_time = (if eo_sending_time options = [] then CurrentUtcTimestamp now (eo_timestamp_resolution options)
                            else eo_sending_time options);
            out = AppendStringField out kSendingTimePrefix sending_time delimiter;
            out = append_unless_empty out kDefaultApplVerIDPrefix
                    (if am_msg_type message = bytes_of ''A'' then eo_default_appl_ver_id options else []) delimiter;
            out = append_unless_empty out kApplVerIDPrefix (eo_appl_ver_id options) delimiter;
            out = (if eo_poss_dup options then out @ kPossDupFlagYesField @ [delimiter] else out);
            out = (if eo_poss_resend options then out @ kPossResendYesField @ [delimiter] else out);
            out = append_unless_empty out kOrigSendingTimePrefix (eo_orig_sending_time options) delimiter;
            out = append_unless_empty out kOnBehalfOfCompIDPrefix (eo_on_behalf_of_comp_id options) delimiter;
            out = append_unless_empty out kDeliverToCompIDPrefix (eo_deliver_to_comp_id options) delimiter;
            out = out @ ex_header_fragment extras;
            out = out @ am_body message;
            out = out @ ex_body_fragment extras
        in finish_frame ''encoded body length exceeds BodyLength placeholder width'' out body_length_offset body_start delimiter)"

text \<open>The header fields it writes.\<close>

definition sending_time_of :: "nat \<Rightarrow> EncodeOptions \<Rightarrow> bytes" where
  "sending_time_of now options =
     (if eo_sending_time options = [] then CurrentUtcTimestamp now (eo_timestamp_resolution options)
      else eo_sending_time options)"

definition seq_num_of :: "EncodeOptions \<Rightarrow> u32" where
  "seq_num_of options = (if eo_msg_seq_num options = 0 then 1 else eo_msg_seq_num options)"

definition pre_encoded_fields :: "nat \<Rightarrow> EncodedApplicationMessageView \<Rightarrow> EncodeOptions \<Rightarrow> (nat \<times> bytes) list" where
  "pre_encoded_fields now message options =
     [(35, am_msg_type message)] @ [(34, dec (unat (seq_num_of options)))] @ opt_field 49 (eo_sender_comp_id options) @
     opt_field 50 (eo_sender_sub_id options) @ opt_field 56 (eo_target_comp_id options) @
     opt_field 57 (eo_target_sub_id options) @ [(52, sending_time_of now options)] @
     opt_field 1137 (if am_msg_type message = bytes_of ''A'' then eo_default_appl_ver_id options else []) @
     opt_field 1128 (eo_appl_ver_id options) @ flag_field 43 (eo_poss_dup options) @
     flag_field 97 (eo_poss_resend options) @ opt_field 122 (eo_orig_sending_time options) @
     opt_field 115 (eo_on_behalf_of_comp_id options) @ opt_field 128 (eo_deliver_to_comp_id options)"

definition pre_encoded_body :: "EncodedApplicationMessageView \<Rightarrow> EncodedOutboundExtrasView \<Rightarrow> bytes" where
  "pre_encoded_body message extras = ex_header_fragment extras @ am_body message @ ex_body_fragment extras"

lemma yes_field_eqs:
  "(if b then out @ kPossDupFlagYesField @ [soh] else out) = out @ wire_fields soh (flag_field 43 b)"
  "(if b then out @ kPossResendYesField @ [soh] else out) = out @ wire_fields soh (flag_field 97 b)"
  by (simp_all add: flag_field_def wire_field_def prefix_bytes del: dec.simps)

lemma EncodePre_frame:
  assumes "am_valid message" and "soh = soh_of (eo_delimiter options)"
    and "length (wire_fields soh (pre_encoded_fields now message options)) + length (pre_encoded_body message extras) < 10 ^ 7"
  shows "EncodePreEncodedApplicationToBuffer now message options extras =
    Inr (wire_frame soh (if eo_begin_string options = [] then bytes_of ''FIX.4.4'' else eo_begin_string options)
           (pre_encoded_fields now message options) (pre_encoded_body message extras))"
  using encoders_finish [OF assms(3), unfolded pre_encoded_fields_def pre_encoded_body_def append_assoc] assms(1)
  unfolding EncodePreEncodedApplicationToBuffer_def Let_def
  unfolding yes_field_eqs
  unfolding prefix_bytes append_eqs assms(2) [symmetric] pre_encoded_fields_def pre_encoded_body_def seq_num_of_def
    sending_time_of_def
  by (simp only: append_assoc wire_fields_merge simp_thms if_False)

section \<open>The scan on rendered fields\<close>

lemma tag_loop_append: "tag_loop (xs @ ys) t = (case tag_loop xs t of None \<Rightarrow> None | Some u \<Rightarrow> tag_loop ys u)"
  by (induction xs t rule: tag_loop.induct) auto

lemma tag_loop_digits: "\<forall>c\<in>set ds. is_digit c \<Longrightarrow> tag_loop ds 0 = Some (of_nat (digits_value ds))"
proof (induction ds rule: rev_induct)
  case Nil
  then show ?case by (simp add: digits_value_def)
next
  case (snoc c ds)
  have "48 \<le> c" using snoc.prems by (simp add: is_digit_def)
  then have "unat (c - 48) = unat c - 48" by (simp add: unat_sub)
  moreover have "(ucast (c - 48) :: u32) = of_nat (unat (c - 48))" by simp
  ultimately have "(ucast (c - 48) :: u32) = of_nat (unat c - 48)" by (simp only:)
  then show ?case using snoc by (simp add: tag_loop_append digits_value_snoc)
qed

lemma body_start_step:
  assumes field: "drop pos data = ds @ 61 # v @ 1 # rest" and ds: "tag_text ds" and v: "1 \<notin> set v"
  shows "body_start_loop data pos l =
    (if IsAggregateSessionEnvelopeTag (of_nat (digits_value ds))
     then body_start_loop data (pos + length ds + length v + 2) (pos + length ds + length v + 2) else l)"
proof -
  have len: "length data = pos + length ds + length v + length rest + 2"
    using arg_cong [OF field, of length] by (cases "pos \<le> length data") auto
  have t1: "takeWhile (\<lambda>b. b \<noteq> 61) (drop pos data) = ds"
    unfolding field using tag_text_no_eq [OF ds] by (subst takeWhile_append2) auto
  have "drop (pos + length ds + 1) data = drop (length ds + 1) (drop pos data)" by (simp add: add.commute)
  then have d2: "drop (pos + length ds + 1) data = v @ 1 # rest" by (simp add: field)
  have t2: "takeWhile (\<lambda>b. b \<noteq> 1) (drop (pos + length ds + 1) data) = v"
    unfolding d2 using v by (subst takeWhile_append2) auto
  have tag: "tag_loop (take (length ds) (drop pos data)) 0 = Some (of_nat (digits_value ds))"
    using ds by (simp add: field tag_loop_digits tag_text_def)
  have "ds \<noteq> []" using ds by (simp add: tag_text_def)
  then show ?thesis
    using len tag t2 by (subst body_start_loop.simps) (simp add: t1 Let_def add.commute add.left_commute)
qed

definition envelope_field :: "nat \<times> bytes \<Rightarrow> bool" where
  "envelope_field f \<longleftrightarrow> fst f < 2 ^ 32 \<and> IsAggregateSessionEnvelopeTag (of_nat (fst f)) \<and> 1 \<notin> set (snd f)"

lemma body_start_fields:
  "\<forall>f\<in>set fs. envelope_field f \<Longrightarrow> body_start_loop (pre @ wire_fields 1 fs @ rest) (length pre) (length pre) =
     body_start_loop (pre @ wire_fields 1 fs @ rest) (length (pre @ wire_fields 1 fs)) (length (pre @ wire_fields 1 fs))"
proof (induction fs arbitrary: pre)
  case (Cons f fs)
  obtain n v where f: "f = (n, v)" by (cases f)
  have n: "n < 2 ^ 32" "IsAggregateSessionEnvelopeTag (of_nat n)" "1 \<notin> set v"
    using Cons.prems by (auto simp: f envelope_field_def)
  let ?data = "pre @ wire_field 1 f @ wire_fields 1 fs @ rest"
  have "drop (length pre) ?data = dec n @ 61 # v @ 1 # wire_fields 1 fs @ rest" by (simp add: f wire_field_def)
  from body_start_step [OF this tag_text_dec [OF n(1)] n(3), of "length pre"] n(2)
  have "body_start_loop ?data (length pre) (length pre) =
      body_start_loop ((pre @ wire_field 1 f) @ wire_fields 1 fs @ rest) (length (pre @ wire_field 1 f)) (length (pre @ wire_field 1 f))"
    by (simp add: f wire_field_def add.assoc)
  also have "\<dots> = body_start_loop ((pre @ wire_field 1 f) @ wire_fields 1 fs @ rest)
      (length ((pre @ wire_field 1 f) @ wire_fields 1 fs)) (length ((pre @ wire_field 1 f) @ wire_fields 1 fs))"
    using Cons.prems by (intro Cons.IH) simp
  finally show ?case by simp
qed simp

lemma header_field_envelope: "header_field 1 f \<Longrightarrow> envelope_field f"
  by (simp add: header_field_def envelope_field_def IsSessionHeaderTag_def)

lemma prefix_envelope:
  assumes "1 \<notin> set bs"
  shows "envelope_field (8, bs)" and "envelope_field (9, dec n)"
  using assms good_delim_dec [OF good_delim_soh] by (auto simp: envelope_field_def IsAggregateSessionEnvelopeTag_iff)

text \<open>On a frame with a body the scan finds the end of the header; without one it runs past the trailer.\<close>

lemma body_start_frame:
  assumes "1 \<notin> set bs" and "\<forall>f\<in>set fs. header_field 1 f"
    and opq: "\<And>c. opaque_body 1 body ([49, 48, 61] @ checksum_digits c @ [1])"
  shows "body_start_loop (wire_frame 1 bs fs body) 0 0 =
    (if body = [] then length (wire_frame 1 bs fs body)
     else length (wire_prefix 1 bs (length (wire_fields 1 fs) + length body) @ wire_fields 1 fs))"
proof -
  let ?n = "length (wire_fields 1 fs) + length body"
  let ?all = "(8, bs) # (9, dec ?n) # fs"
  let ?cs = "checksum_digits (byte_sum (wire_fields 1 ?all @ body) mod 256)"
  have frame: "wire_frame 1 bs fs body = wire_fields 1 ?all @ body @ [49, 48, 61] @ ?cs @ [1]"
    by (simp add: wire_frame_def wire_prefix_def Let_def)
  have "\<forall>f\<in>set ?all. envelope_field f"
    using assms(2) header_field_envelope prefix_envelope [OF assms(1)] by auto
  from body_start_fields [OF this, of "[]" "body @ [49, 48, 61] @ ?cs @ [1]"]
  have hdr: "body_start_loop (wire_frame 1 bs fs body) 0 0 =
      body_start_loop (wire_frame 1 bs fs body) (length (wire_fields 1 ?all)) (length (wire_fields 1 ?all))"
    unfolding frame by simp
  show ?thesis
  proof (cases "body = []")
    case True
    have cs: "1 \<notin> set ?cs" using checksum_digits_clean [OF good_delim_soh] by simp
    have "drop (length (wire_fields 1 ?all)) (wire_frame 1 bs fs body) = [49, 48] @ 61 # ?cs @ 1 # []"
      unfolding frame by (simp add: True)
    moreover have tt: "tag_text [49, 48]" "digits_value [49, 48] = 10"
      by (simp_all add: tag_text_def digits_value_def is_digit_def word_le_nat_alt)
    ultimately have "body_start_loop (wire_frame 1 bs fs body) (length (wire_fields 1 ?all)) (length (wire_fields 1 ?all)) =
        body_start_loop (wire_frame 1 bs fs body) (length (wire_frame 1 bs fs body)) (length (wire_frame 1 bs fs body))"
      using cs body_start_step [of "length (wire_fields 1 ?all)" "wire_frame 1 bs fs body" "[49, 48]" ?cs "[]"]
        arg_cong [OF frame, of length]
      by (simp add: IsAggregateSessionEnvelopeTag_iff True del: wire_fields_simps)
    then show ?thesis using True hdr by (simp add: body_start_loop.simps)
  next
    case False
    then obtain ds v rest where b: "body @ [49, 48, 61] @ ?cs @ [1] = ds @ 61 # v @ 1 # rest" "tag_text ds" "1 \<notin> set v"
        "\<not> IsSessionHeaderTag (of_nat (digits_value ds))"
      using opq [of "byte_sum (wire_fields 1 ?all @ body) mod 256"] by (auto simp: opaque_body_def)
    have "drop (length (wire_fields 1 ?all)) (wire_frame 1 bs fs body) = ds @ 61 # v @ 1 # rest"
      unfolding frame b(1) [symmetric] by simp
    from body_start_step [OF this b(2,3)] b(4) show ?thesis
      using False hdr by (simp add: IsSessionHeaderTag_def wire_prefix_def)
  qed
qed

section \<open>Decoding at a stored offset\<close>

lemma header_loop_known:
  assumes "header_loop data d False scan_end pos le view = Inr (l, view')" and "le = pos" and "clean_view d view"
    and "pos \<le> length data"
  shows "header_loop data d True l pos le view = Inr (l, view')"
  using assms
proof (induction data d False scan_end pos le view rule: header_loop.induct)
  case (1 data d scan_end pos le view)
  let ?f = "ScanField data pos d"
  show ?case
  proof (cases "pos < scan_end \<and> IsSessionHeaderTag (sf_tag ?f)")
    case True
    then have nf: "?f \<noteq> no_field"
      by (auto simp: no_field_def IsSessionHeaderTag_def IsAggregateSessionEnvelopeTag_iff)
    have nz: "\<not> (sf_tag ?f = 0 \<and> sf_next_pos ?f = 0)" using ScanField_next [OF nf] by auto
    let ?view = "assign_header (sf_tag ?f) (ValueView data (sf_value_offset ?f) (sf_value_length ?f)) view"
    have rec: "header_loop data d False scan_end (sf_next_pos ?f) (sf_next_pos ?f) ?view = Inr (l, view')"
      using "1.prems"(1) True nz by (subst (asm) header_loop.simps) (simp add: Let_def)
    have clean: "clean_view d ?view" using "1.prems"(3) ValueView_clean [OF nf refl] by (rule clean_view_assign)
    have "sf_next_pos ?f \<le> l" using header_loop_sound [OF rec refl clean] ScanField_next [OF nf] by simp
    then have "pos < l" using ScanField_next [OF nf] by simp
    moreover have "header_loop data d True l (sf_next_pos ?f) (sf_next_pos ?f) ?view = Inr (l, view')"
      using "1.hyps" [OF _ refl nz] True rec clean ScanField_next [OF nf] by simp
    ultimately show ?thesis using True nz by (subst header_loop.simps) (simp add: Let_def)
  next
    case False
    then have "l = le \<and> view' = view"
      using "1.prems"(1) by (auto simp: header_loop.simps [of data] Let_def split: if_splits)
    then show ?thesis using "1.prems"(2) by (simp add: header_loop.simps [of data d True])
  qed
qed

text \<open>A frame that decodes without an offset decodes to the same view at the offset that view reports.\<close>

lemma decode_at_offset:
  assumes dec: "DecodeRawPassThrough data d verify = Some (Inr v)" and "d \<noteq> 0" and size: "length data < 2 ^ 32"
    and "unat (rp_body_start_offset v) + 7 \<le> length data"
  shows "DecodeRawPassThrough_at data (rp_body_start_offset v) d verify = Some (Inr v)"
proof -
  define f1 f2 where "f1 = ScanField data 0 d" and "f2 = ScanField data (sf_next_pos f1) d"
  define cfs where "cfs = length data - 7"
  let ?view = "RawPassThroughView_new\<lparr> rp_raw_message := data,
      rp_begin_string := ValueView data (sf_value_offset f1) (sf_value_length f1) \<rparr>"
  have known: "(None \<noteq> (None :: u32 option)) = False" "(Some b \<noteq> None) = True" for b :: u32 by simp_all
  note dec' = dec [unfolded DecodeRawPassThrough_def DecodeRawPassThroughImpl_def Let_def option.case,
      unfolded if_not_P [OF assms(2)] known, folded f1_def, folded f2_def, folded cfs_def]
  have t: "sf_tag f1 = 8" "sf_tag f2 = 9" using dec' by (auto split: if_splits)
  obtain l view where loop: "header_loop data d False cfs (sf_next_pos f2) (sf_next_pos f2) ?view = Inr (l, view)"
    using dec' by (cases "header_loop data d False cfs (sf_next_pos f2) (sf_next_pos f2) ?view")
      (auto split: if_splits)
  obtain body where sub: "subspan data (unat (of_nat l :: u32)) (size_sub cfs (unat (of_nat l :: u32))) = Some body"
    and v: "v = view\<lparr> rp_raw_body := body, rp_body_start_offset := of_nat l, rp_valid := True \<rparr>"
    using dec' [unfolded loop sum.case prod.case] by (simp split: if_splits option.splits)
  have "f1 \<noteq> no_field" "f2 \<noteq> no_field" using t by (auto simp: no_field_def)
  then have clean: "clean_view d ?view" and next_pos: "sf_next_pos f2 \<le> length data"
    using ValueView_clean [of data 0 d f1] ScanField_next [of data "sf_next_pos f1" d]
    by (simp_all add: clean_view_def RawPassThroughView_new_def f1_def f2_def)
  have l: "sf_next_pos f2 \<le> l" "l \<le> length data" using header_loop_sound [OF loop refl clean next_pos] by auto
  have "unat (of_nat l :: u32) = l" using l(2) size by (intro unat_of_nat_u32) simp
  moreover from this have "l \<le> cfs" using assms(4) by (simp add: v cfs_def)
  moreover have "header_loop data d True l (sf_next_pos f2) (sf_next_pos f2) ?view = Inr (l, view)"
    using header_loop_known [OF loop refl clean next_pos] .
  ultimately show ?thesis
    using dec' sub l(1) unfolding DecodeRawPassThrough_at_def DecodeRawPassThroughImpl_def Let_def option.case
    unfolding if_not_P [OF assms(2)] known f1_def [symmetric]
    unfolding f2_def [symmetric] cfs_def [symmetric]
    by (simp add: v split: if_splits)
qed

text \<open>An offset past the start of the trailer is refused.\<close>

lemma decode_beyond:
  assumes "\<exists>v. DecodeRawPassThrough data 1 verify = Some (Inr v)" and "length data \<le> unat off"
  shows "DecodeRawPassThrough_at data off 1 verify =
    Some (Inl (FormatError ''stored body_start_offset is outside the FIX body''))"
  using assms unfolding DecodeRawPassThrough_at_def DecodeRawPassThrough_def DecodeRawPassThroughImpl_def Let_def
  by (auto split: if_splits)

section \<open>Properties\<close>

lemma view_of_pre_encoded:
  "view_of data bs (pre_encoded_fields now message options) =
     \<lparr> rp_begin_string = bs, rp_msg_type = am_msg_type message, rp_msg_seq_num = seq_num_of options,
       rp_sender_comp_id = eo_sender_comp_id options, rp_sender_sub_id = eo_sender_sub_id options,
       rp_target_comp_id = eo_target_comp_id options, rp_target_sub_id = eo_target_sub_id options,
       rp_on_behalf_of_comp_id = eo_on_behalf_of_comp_id options, rp_deliver_to_comp_id = eo_deliver_to_comp_id options,
       rp_default_appl_ver_id = (if am_msg_type message = bytes_of ''A'' then eo_default_appl_ver_id options else []),
       rp_appl_ver_id = eo_appl_ver_id options, rp_sending_time = sending_time_of now options,
       rp_orig_sending_time = eo_orig_sending_time options, rp_poss_dup = eo_poss_dup options,
       rp_poss_resend = eo_poss_resend options, rp_raw_body = [], rp_body_start_offset = 0,
       rp_raw_message = data, rp_valid = False \<rparr>"
  by (simp add: view_of_def pre_encoded_fields_def fold_opt_field fold_flag_field RawPassThroughView_new_def
      assign_header_def ParseUint32_number ParseBoolean_def bytes_of_def)

lemma opaque_wire_field:
  assumes "n < 2 ^ 32" and "\<not> IsSessionHeaderTag (of_nat n)" and "1 \<notin> set v"
  shows "opaque_body 1 (wire_field 1 (n, v) @ rest) trail"
  unfolding opaque_body_def
  using assms tag_text_dec [OF assms(1)] good_delim_dec [OF good_delim_soh, of n]
  by (intro disjI2 exI [of _ "dec n"] exI [of _ v] exI [of _ "rest @ trail"]) (simp add: wire_field_def)

text \<open>
  C31: Storing a pre-encoded application message for replay: the encoder produces a frame with a correct
  body length and checksum, the offset computed for the store is where its body starts, and decoding
  the frame at that offset, as the replay does, gives the same view as decoding it from scratch,
  with the header the options ask for and the application's bytes as the body.
\<close>

theorem pre_encoded_frame_roundtrip:
  assumes "am_valid message" and "eo_delimiter options = 0 \<or> eo_delimiter options = kFixSoh"
    and "eo_begin_string options \<noteq> []" and "kFixSoh \<notin> set (eo_begin_string options)"
    and "length (eo_begin_string options) < 10 ^ 7"
    and "\<forall>f\<in>set (pre_encoded_fields now message options). kFixSoh \<notin> set (snd f)"
    and "length (wire_fields kFixSoh (pre_encoded_fields now message options)) + length (pre_encoded_body message extras) < 10 ^ 7"
    and "pre_encoded_body message extras = wire_field kFixSoh (n, v) @ rest" and "n < 2 ^ 32"
    and "\<not> IsSessionHeaderTag (of_nat n)" and "kFixSoh \<notin> set v"
  shows "\<exists>frame view. EncodePreEncodedApplicationToBuffer now message options extras = Inr frame \<and>
    DecodeRawPassThrough frame kFixSoh True = Some (Inr view) \<and>
    DecodeRawPassThrough_at frame (ComputeBodyStartOffset frame) kFixSoh True = Some (Inr view) \<and>
    view = \<lparr> rp_begin_string = eo_begin_string options, rp_msg_type = am_msg_type message,
       rp_msg_seq_num = seq_num_of options,
       rp_sender_comp_id = eo_sender_comp_id options, rp_sender_sub_id = eo_sender_sub_id options,
       rp_target_comp_id = eo_target_comp_id options, rp_target_sub_id = eo_target_sub_id options,
       rp_on_behalf_of_comp_id = eo_on_behalf_of_comp_id options, rp_deliver_to_comp_id = eo_deliver_to_comp_id options,
       rp_default_appl_ver_id = (if am_msg_type message = bytes_of ''A'' then eo_default_appl_ver_id options else []),
       rp_appl_ver_id = eo_appl_ver_id options, rp_sending_time = sending_time_of now options,
       rp_orig_sending_time = eo_orig_sending_time options, rp_poss_dup = eo_poss_dup options,
       rp_poss_resend = eo_poss_resend options,
       rp_raw_body = ex_header_fragment extras @ am_body message @ ex_body_fragment extras,
       rp_body_start_offset = ComputeBodyStartOffset frame, rp_raw_message = frame, rp_valid = True \<rparr>"
proof -
  let ?fs = "pre_encoded_fields now message options" and ?body = "pre_encoded_body message extras"
  let ?bs = "eo_begin_string options"
  let ?frame = "wire_frame 1 ?bs ?fs ?body"
  have enc: "EncodePreEncodedApplicationToBuffer now message options extras = Inr ?frame"
    using EncodePre_frame [OF assms(1) _ assms(7)] assms(2,3) by auto
  have fs: "\<forall>f\<in>set ?fs. header_field 1 f"
    using assms(6) by (auto simp: pre_encoded_fields_def opt_field_def flag_field_def header_field_numbers)
  have opq: "opaque_body 1 ?body trail" for trail
    unfolding assms(8) using assms(9-11) by (intro opaque_wire_field) simp_all
  have ne: "?body \<noteq> []" by (simp add: assms(8) wire_field_def)
  have size: "length ?frame < 2 ^ 32" using length_wire_frame [of 1 ?fs ?body ?bs] assms(5,7) by simp
  let ?off = "length (wire_prefix 1 ?bs (length (wire_fields 1 ?fs) + length ?body) @ wire_fields 1 ?fs)"
  have off: "ComputeBodyStartOffset ?frame = of_nat ?off"
    unfolding ComputeBodyStartOffset_def using body_start_frame [OF _ fs opq] assms(4) ne by simp
  let ?v = "(view_of ?frame ?bs ?fs)\<lparr> rp_raw_body := ?body, rp_body_start_offset := ComputeBodyStartOffset ?frame,
      rp_valid := True \<rparr>"
  have dec: "DecodeRawPassThrough ?frame 1 True = Some (Inr ?v)"
    unfolding off by (rule decode_wire_frame [OF good_delim_soh _ fs size opq]) (use assms(4) in simp)
  have len: "?off + 7 \<le> length ?frame" by (simp add: wire_frame_def Let_def checksum_digits_def)
  then have "unat (of_nat ?off :: u32) = ?off" using size by (intro unat_of_nat_u32) simp
  then have at: "DecodeRawPassThrough_at ?frame (ComputeBodyStartOffset ?frame) 1 True = Some (Inr ?v)"
    using decode_at_offset [OF dec _ size] len by (simp add: off del: of_nat_add)
  show ?thesis
    unfolding pre_encoded_body_def [symmetric]
    by (rule exI [of _ ?frame], rule exI [of _ ?v]) (simp add: enc dec at view_of_pre_encoded)
qed

text \<open>A sample order: the body \<open>11=ORD1\<close> under a session header.\<close>

definition sample_app_message :: EncodedApplicationMessageView where
  "sample_app_message = \<lparr> am_msg_type = bytes_of ''D'', am_body = wire_field 1 (11, bytes_of ''ORD1''), am_extras = no_extras \<rparr>"

definition sample_encode_options :: EncodeOptions where
  "sample_encode_options = EncodeOptions_new\<lparr> eo_sender_comp_id := bytes_of ''BUY'', eo_target_comp_id := bytes_of ''SELL'',
     eo_sending_time := bytes_of ''20260102-03:04:05'', eo_msg_seq_num := 7 \<rparr>"

lemma sample_pre_encoded:
  "pre_encoded_fields 0 sample_app_message sample_encode_options =
     [(35, bytes_of ''D''), (34, dec 7), (49, bytes_of ''BUY''), (56, bytes_of ''SELL''),
      (52, bytes_of ''20260102-03:04:05'')]"
  "pre_encoded_body sample_app_message no_extras = wire_field 1 (11, bytes_of ''ORD1'')"
  by (simp_all add: pre_encoded_fields_def pre_encoded_body_def sample_app_message_def sample_encode_options_def
      no_extras_def EncodeOptions_new_def sending_time_of_def seq_num_of_def opt_field_def flag_field_def bytes_of_def)

theorem pre_encoded_frame_roundtrip_witness:
  "\<exists>frame view. EncodePreEncodedApplicationToBuffer 0 sample_app_message sample_encode_options no_extras = Inr frame \<and>
    DecodeRawPassThrough_at frame (ComputeBodyStartOffset frame) kFixSoh True = Some (Inr view) \<and>
    rp_raw_body view = wire_field 1 (11, bytes_of ''ORD1'') \<and> rp_msg_seq_num view = 7"
proof -
  have "am_valid sample_app_message" "eo_delimiter sample_encode_options = kFixSoh"
    "eo_begin_string sample_encode_options = bytes_of ''FIX.4.4''" "seq_num_of sample_encode_options = 7"
    by (simp_all add: am_valid_def sample_app_message_def sample_encode_options_def EncodeOptions_new_def bytes_of_def
      seq_num_of_def)
  then show ?thesis
    using pre_encoded_frame_roundtrip [of sample_app_message sample_encode_options 0 no_extras 11 "bytes_of ''ORD1''" "[]"]
      good_delim_dec [OF good_delim_soh, of 7]
      sample_pre_encoded(2) [unfolded pre_encoded_body_def]
    by (auto simp: sample_pre_encoded bytes_of_def wire_field_def dec_ge IsSessionHeaderTag_def
        IsAggregateSessionEnvelopeTag_iff)
qed

text \<open>
  C32: An application message with an empty body: the frame is valid and decodes, but the scan counts
  the checksum field as part of the header, so the offset kept in the store is the length of the
  frame and the replay refuses to decode the frame at it.
\<close>

theorem empty_body_not_replayable:
  assumes "am_valid message" and "eo_delimiter options = kFixSoh"
    and "eo_begin_string options \<noteq> []" and "kFixSoh \<notin> set (eo_begin_string options)"
    and "length (eo_begin_string options) < 10 ^ 7"
    and "\<forall>f\<in>set (pre_encoded_fields now message options). kFixSoh \<notin> set (snd f)"
    and "length (wire_fields kFixSoh (pre_encoded_fields now message options)) < 10 ^ 7"
    and "pre_encoded_body message extras = []"
  shows "\<exists>frame view. EncodePreEncodedApplicationToBuffer now message options extras = Inr frame \<and>
    DecodeRawPassThrough frame kFixSoh True = Some (Inr view) \<and>
    unat (ComputeBodyStartOffset frame) = length frame \<and>
    DecodeRawPassThrough_at frame (ComputeBodyStartOffset frame) kFixSoh True =
      Some (Inl (FormatError ''stored body_start_offset is outside the FIX body''))"
proof -
  let ?fs = "pre_encoded_fields now message options" and ?bs = "eo_begin_string options"
  let ?frame = "wire_frame 1 ?bs ?fs []"
  have enc: "EncodePreEncodedApplicationToBuffer now message options extras = Inr ?frame"
    using EncodePre_frame [OF assms(1)] assms(2,3,7,8) by auto
  have fs: "\<forall>f\<in>set ?fs. header_field 1 f"
    using assms(6) by (auto simp: pre_encoded_fields_def opt_field_def flag_field_def header_field_numbers)
  have opq: "opaque_body 1 [] trail" for trail by (simp add: opaque_body_def)
  have size: "length ?frame < 2 ^ 32" using length_wire_frame [of 1 ?fs "[]" ?bs] assms(5,7) by simp
  have "body_start_loop ?frame 0 0 = length ?frame" using body_start_frame [OF _ fs opq] assms(4) by simp
  then have off: "unat (ComputeBodyStartOffset ?frame) = length ?frame"
    using size by (simp add: ComputeBodyStartOffset_def unat_of_nat_u32)
  have dec: "\<exists>v. DecodeRawPassThrough ?frame 1 True = Some (Inr v)"
    using decode_wire_frame [OF good_delim_soh _ fs size opq] assms(4) by simp
  then have "DecodeRawPassThrough_at ?frame (ComputeBodyStartOffset ?frame) 1 True =
      Some (Inl (FormatError ''stored body_start_offset is outside the FIX body''))"
    by (rule decode_beyond) (simp add: off)
  then show ?thesis using enc dec off by auto
qed

theorem empty_body_not_replayable_witness:
  "\<exists>frame view. EncodePreEncodedApplicationToBuffer 0 (sample_app_message\<lparr> am_body := [] \<rparr>) sample_encode_options no_extras = Inr frame \<and>
    DecodeRawPassThrough frame kFixSoh True = Some (Inr view) \<and>
    DecodeRawPassThrough_at frame (ComputeBodyStartOffset frame) kFixSoh True =
      Some (Inl (FormatError ''stored body_start_offset is outside the FIX body''))"
proof -
  let ?m = "sample_app_message\<lparr> am_body := [] \<rparr>"
  have "am_valid ?m" "eo_delimiter sample_encode_options = kFixSoh"
    "eo_begin_string sample_encode_options = bytes_of ''FIX.4.4''" "pre_encoded_body ?m no_extras = []"
    "pre_encoded_fields 0 ?m sample_encode_options = pre_encoded_fields 0 sample_app_message sample_encode_options"
    by (simp_all add: am_valid_def sample_app_message_def sample_encode_options_def EncodeOptions_new_def bytes_of_def
      pre_encoded_body_def no_extras_def pre_encoded_fields_def)
  then show ?thesis
    using empty_body_not_replayable [of ?m sample_encode_options 0 no_extras] good_delim_dec [OF good_delim_soh, of 7]
    by (auto simp: sample_pre_encoded wire_field_def bytes_of_def dec_ge)
qed

end
