(* ===== verification/Validation_Policy.thy ===== *)
theory Validation_Policy
  imports Wire_Format
begin

text \<open>
  \<^verbatim>\<open>session/validation_policy.h\<close> and the policy decisions of \<^verbatim>\<open>session/admin_protocol.cpp\<close>: which of
  the issues a decoder reports make the session reject a message. The application's callback is
  an argument; its notification method does not influence the decision and is left out.
\<close>

section \<open>Policies\<close>

datatype ValidationMode = kStrict | kCompatible | kPermissive | kRawPassThrough

datatype UnknownFieldAction = kRejectUnknown | kIgnoreUnknown | kLogAndProcess

datatype MalformedFieldAction = kRejectMalformed | kIgnoreMalformed | kLog

record ValidationPolicy =
  vp_mode :: ValidationMode
  vp_enforce_comp_ids :: bool
  vp_require_default_appl_ver_id_on_logon :: bool
  vp_require_orig_sending_time_on_poss_dup :: bool
  vp_reject_on_stale_msg_seq_num :: bool
  vp_require_known_app_message_type :: bool
  vp_require_required_fields_on_app_messages :: bool
  vp_reject_unknown_fields :: bool
  vp_reject_duplicate_fields :: bool
  vp_reject_tag_without_value :: bool
  vp_reject_incorrect_data_format :: bool
  vp_reject_fields_out_of_order :: bool
  vp_reject_invalid_group_structure :: bool
  vp_verify_checksum :: bool
  vp_unknown_field_action :: UnknownFieldAction
  vp_malformed_field_action :: MalformedFieldAction
  vp_validate_enum_values :: bool

definition Strict :: ValidationPolicy where
  "Strict =
     \<lparr> vp_mode = kStrict, vp_enforce_comp_ids = True, vp_require_default_appl_ver_id_on_logon = True,
       vp_require_orig_sending_time_on_poss_dup = True, vp_reject_on_stale_msg_seq_num = True,
       vp_require_known_app_message_type = True, vp_require_required_fields_on_app_messages = False,
       vp_reject_unknown_fields = True, vp_reject_duplicate_fields = True, vp_reject_tag_without_value = True,
       vp_reject_incorrect_data_format = True, vp_reject_fields_out_of_order = True,
       vp_reject_invalid_group_structure = True, vp_verify_checksum = True,
       vp_unknown_field_action = kRejectUnknown, vp_malformed_field_action = kRejectMalformed,
       vp_validate_enum_values = True \<rparr>"

definition Compatible :: ValidationPolicy where
  "Compatible =
     \<lparr> vp_mode = kCompatible, vp_enforce_comp_ids = True, vp_require_default_appl_ver_id_on_logon = False,
       vp_require_orig_sending_time_on_poss_dup = False, vp_reject_on_stale_msg_seq_num = True,
       vp_require_known_app_message_type = False, vp_require_required_fields_on_app_messages = False,
       vp_reject_unknown_fields = False, vp_reject_duplicate_fields = False, vp_reject_tag_without_value = True,
       vp_reject_incorrect_data_format = True, vp_reject_fields_out_of_order = False,
       vp_reject_invalid_group_structure = True, vp_verify_checksum = True,
       vp_unknown_field_action = kIgnoreUnknown, vp_malformed_field_action = kRejectMalformed,
       vp_validate_enum_values = True \<rparr>"

definition Permissive :: ValidationPolicy where
  "Permissive =
     \<lparr> vp_mode = kPermissive, vp_enforce_comp_ids = False, vp_require_default_appl_ver_id_on_logon = False,
       vp_require_orig_sending_time_on_poss_dup = False, vp_reject_on_stale_msg_seq_num = False,
       vp_require_known_app_message_type = False, vp_require_required_fields_on_app_messages = False,
       vp_reject_unknown_fields = False, vp_reject_duplicate_fields = False, vp_reject_tag_without_value = False,
       vp_reject_incorrect_data_format = False, vp_reject_fields_out_of_order = False,
       vp_reject_invalid_group_structure = False, vp_verify_checksum = True,
       vp_unknown_field_action = kIgnoreUnknown, vp_malformed_field_action = kIgnoreMalformed,
       vp_validate_enum_values = False \<rparr>"

definition RawPassThrough :: ValidationPolicy where
  "RawPassThrough =
     \<lparr> vp_mode = kRawPassThrough, vp_enforce_comp_ids = False, vp_require_default_appl_ver_id_on_logon = False,
       vp_require_orig_sending_time_on_poss_dup = False, vp_reject_on_stale_msg_seq_num = False,
       vp_require_known_app_message_type = False, vp_require_required_fields_on_app_messages = False,
       vp_reject_unknown_fields = False, vp_reject_duplicate_fields = False, vp_reject_tag_without_value = False,
       vp_reject_incorrect_data_format = False, vp_reject_fields_out_of_order = False,
       vp_reject_invalid_group_structure = False, vp_verify_checksum = False,
       vp_unknown_field_action = kIgnoreUnknown, vp_malformed_field_action = kIgnoreMalformed,
       vp_validate_enum_values = False \<rparr>"

fun MakeValidationPolicy :: "ValidationMode \<Rightarrow> ValidationPolicy" where
  "MakeValidationPolicy kCompatible = Compatible"
| "MakeValidationPolicy kPermissive = Permissive"
| "MakeValidationPolicy kRawPassThrough = RawPassThrough"
| "MakeValidationPolicy kStrict = Strict"

section \<open>Issues\<close>

datatype ValidationIssueKind =
    kNone | kUnknownField | kFieldNotAllowed | kDuplicateField | kIncorrectNumInGroupCount
  | kTagSpecifiedWithoutAValue | kIncorrectDataFormatForValue | kTagSpecifiedOutOfRequiredOrder
  | kRepeatingGroupFieldsOutOfRequiredOrder | kEnumValueNotAllowed

record ValidationIssue =
  vi_kind :: ValidationIssueKind
  vi_tag :: u32
  vi_text :: string

definition no_issue :: ValidationIssue where
  "no_issue = \<lparr> vi_kind = kNone, vi_tag = 0, vi_text = [] \<rparr>"

definition issue_present :: "ValidationIssue \<Rightarrow> bool" where
  "issue_present issue \<longleftrightarrow> vi_kind issue \<noteq> kNone"

text \<open>The verdicts of the application's callback: \<^const>\<open>False\<close> asks for a rejection.\<close>

record ValidationCallback =
  OnUnknownField :: "u64 \<Rightarrow> u32 \<Rightarrow> string \<Rightarrow> string \<Rightarrow> bool"
  OnMalformedField :: "u64 \<Rightarrow> u32 \<Rightarrow> string \<Rightarrow> string \<Rightarrow> string \<Rightarrow> bool"

definition malformed_rejected ::
    "bool \<Rightarrow> ValidationPolicy \<Rightarrow> ValidationIssue \<Rightarrow> u64 \<Rightarrow> string \<Rightarrow> string \<Rightarrow> ValidationCallback option \<Rightarrow> bool" where
  "malformed_rejected by_default policy issue session_id msg_type issue_value callback =
     (case vp_malformed_field_action policy of
        kIgnoreMalformed \<Rightarrow> False
      | kLog \<Rightarrow>
          (case callback of
             None \<Rightarrow> False
           | Some cb \<Rightarrow> \<not> OnMalformedField cb session_id (vi_tag issue) issue_value msg_type (vi_text issue))
      | kRejectMalformed \<Rightarrow> by_default)"

definition ShouldRejectValidationIssue ::
    "ValidationPolicy \<Rightarrow> ValidationIssue \<Rightarrow> u64 \<Rightarrow> string \<Rightarrow> string \<Rightarrow> ValidationCallback option \<Rightarrow> bool" where
  "ShouldRejectValidationIssue policy issue session_id msg_type issue_value callback =
     (let unknown =
        (case vp_unknown_field_action policy of
           kIgnoreUnknown \<Rightarrow> False
         | kLogAndProcess \<Rightarrow>
             (case callback of
                None \<Rightarrow> False
              | Some cb \<Rightarrow> \<not> OnUnknownField cb session_id (vi_tag issue) issue_value msg_type)
         | kRejectUnknown \<Rightarrow> vp_reject_unknown_fields policy)
      in case vi_kind issue of
           kUnknownField \<Rightarrow> unknown
         | kFieldNotAllowed \<Rightarrow> unknown
         | kTagSpecifiedWithoutAValue \<Rightarrow> vp_reject_tag_without_value policy
         | kIncorrectDataFormatForValue \<Rightarrow>
             malformed_rejected (vp_reject_incorrect_data_format policy) policy issue session_id msg_type issue_value callback
         | kTagSpecifiedOutOfRequiredOrder \<Rightarrow> vp_reject_fields_out_of_order policy
         | kDuplicateField \<Rightarrow> vp_reject_duplicate_fields policy
         | kRepeatingGroupFieldsOutOfRequiredOrder \<Rightarrow> vp_reject_fields_out_of_order policy
         | kIncorrectNumInGroupCount \<Rightarrow> vp_reject_invalid_group_structure policy
         | kEnumValueNotAllowed \<Rightarrow>
             if \<not> vp_validate_enum_values policy then False
             else malformed_rejected True policy issue session_id msg_type issue_value callback
         | kNone \<Rightarrow> False)"

fun ValidationIssueRejectReason :: "ValidationIssueKind \<Rightarrow> u32" where
  "ValidationIssueRejectReason kFieldNotAllowed = 2"
| "ValidationIssueRejectReason kUnknownField = 0"
| "ValidationIssueRejectReason kTagSpecifiedWithoutAValue = 4"
| "ValidationIssueRejectReason kIncorrectDataFormatForValue = 6"
| "ValidationIssueRejectReason kDuplicateField = 13"
| "ValidationIssueRejectReason kTagSpecifiedOutOfRequiredOrder = 14"
| "ValidationIssueRejectReason kRepeatingGroupFieldsOutOfRequiredOrder = 15"
| "ValidationIssueRejectReason kIncorrectNumInGroupCount = 16"
| "ValidationIssueRejectReason kEnumValueNotAllowed = 5"
| "ValidationIssueRejectReason kNone = 0"

section \<open>Properties\<close>

text \<open>The presets from the most to the least demanding.\<close>

fun mode_rank :: "ValidationMode \<Rightarrow> nat" where
  "mode_rank kStrict = 0"
| "mode_rank kCompatible = 1"
| "mode_rank kPermissive = 2"
| "mode_rank kRawPassThrough = 3"

text \<open>C30: The presets are ordered: an issue rejected under a preset is rejected under every more demanding one,
  with or without a callback, whose verdict no preset asks for; the strict preset rejects every
  issue, and the permissive one none.\<close>

theorem presets_ordered:
  assumes "mode_rank demanding \<le> mode_rank lenient"
  shows "(ShouldRejectValidationIssue (MakeValidationPolicy lenient) issue sid msg_type value cb \<longrightarrow>
     ShouldRejectValidationIssue (MakeValidationPolicy demanding) issue sid msg_type value cb') \<and>
    (ShouldRejectValidationIssue (MakeValidationPolicy kStrict) issue sid msg_type value cb \<longleftrightarrow> issue_present issue) \<and>
    \<not> ShouldRejectValidationIssue (MakeValidationPolicy kPermissive) issue sid msg_type value cb"
  using assms
  by (cases lenient; cases demanding; cases "vi_kind issue")
     (simp_all add: ShouldRejectValidationIssue_def malformed_rejected_def Strict_def Compatible_def Permissive_def
       RawPassThrough_def issue_present_def Let_def)

theorem presets_ordered_witness:
  "ShouldRejectValidationIssue (MakeValidationPolicy kStrict)
     \<lparr> vi_kind = kDuplicateField, vi_tag = 55, vi_text = [] \<rparr> 7 ''D'' [] None"
  using presets_ordered [of kStrict kCompatible "\<lparr> vi_kind = kDuplicateField, vi_tag = 55, vi_text = [] \<rparr>" 7 "''D''" "[]" None None]
  by (simp add: issue_present_def)

end
