(* ===== verification/Admin_Types.thy ===== *)
theory Admin_Types
  imports Session_Core Session_Store Admin_Frames Parsed_Message Validation_Policy
begin

text \<open>
  The data of the admin protocol (\<^verbatim>\<open>session/admin_protocol.h\<close>): its configuration, the decoded
  messages it is fed, the events it returns, its state, and the way its operations are written
  here. An operation maps the state to an outcome and the state it leaves behind, also when it
  fails. What the protocol calls but this development does not define - the virtual methods of
  the store, the message decoder and encoders, the dictionary, the system clock - is the record
  \<open>Env\<close>, an argument of every operation.
\<close>

section \<open>Messages and frames\<close>

record LogonField =
  lf_tag :: u32
  lf_value :: string

record SessionSendEnvelopeView =
  se_sender_sub_id :: string
  se_target_sub_id :: string
  se_appl_ver_id :: string

definition no_envelope :: SessionSendEnvelopeView where
  "no_envelope = \<lparr> se_sender_sub_id = [], se_target_sub_id = [], se_appl_ver_id = [] \<rparr>"

record SessionHeaderView =
  h_begin_string :: string
  h_msg_type :: string
  h_sender_comp_id :: string
  h_sender_sub_id :: string
  h_target_comp_id :: string
  h_target_sub_id :: string
  h_on_behalf_of_comp_id :: string
  h_deliver_to_comp_id :: string
  h_default_appl_ver_id :: string
  h_appl_ver_id :: string
  h_sending_time :: string
  h_orig_sending_time :: string
  h_body_length :: u32
  h_msg_seq_num :: u32
  h_checksum :: u32
  h_poss_dup :: bool
  h_poss_resend :: bool

record DecodedMessageView =
  dm_message :: ParsedMessageData
  dm_header :: SessionHeaderView
  dm_raw :: bytes
  dm_validation_issue :: ValidationIssue

abbreviation dm_view :: "DecodedMessageView \<Rightarrow> MessageView" where
  "dm_view decoded \<equiv> ParsedMessage_view (dm_message decoded)"

record EncodedFrame =
  fr_bytes :: EncodedFrameBytes
  fr_msg_type :: string
  fr_admin :: bool

section \<open>Events\<close>

text \<open>
  A \<^verbatim>\<open>MessageRef\<close> of an event either owns its parsed message through a shared pointer or points to a
  message that lives elsewhere: with the caller of the operation, in the storage of the event that
  holds the reference (\<^verbatim>\<open>owned_application_message_\<close>), or in storage that has been destroyed.
\<close>

datatype MessageOwner = CallerStorage | EventStorage | Released

datatype MessageRef = BorrowedRef MessageOwner ParsedMessageData | OwnedRef ParsedMessageData

definition Borrow :: "ParsedMessageData \<Rightarrow> MessageRef" where
  "Borrow p = BorrowedRef CallerStorage p"

definition CopyRef :: "ParsedMessageData \<Rightarrow> MessageRef" where
  "CopyRef p = OwnedRef p"

definition parsed_valid :: "ParsedMessageData \<Rightarrow> bool" where
  "parsed_valid p \<longleftrightarrow> pm_msg_type p \<noteq> [] \<or> pe_field_count (pm_root p) \<noteq> 0 \<or> pe_group_count (pm_root p) \<noteq> 0"

fun ref_valid :: "MessageRef \<Rightarrow> bool" where
  "ref_valid (BorrowedRef owner p) = view_valid (ParsedMessage_view p)"
| "ref_valid (OwnedRef p) = parsed_valid p"

fun owns_storage :: "MessageRef \<Rightarrow> bool" where
  "owns_storage (BorrowedRef owner p) = False"
| "owns_storage (OwnedRef p) = True"

fun ref_message :: "MessageRef \<Rightarrow> ParsedMessageData" where
  "ref_message (BorrowedRef owner p) = p"
| "ref_message (OwnedRef p) = p"

record ProtocolEvent =
  ev_outbound_frames :: "EncodedFrame list"
  ev_application_messages :: "MessageRef list"
  ev_session_active :: bool
  ev_disconnect :: bool
  ev_poss_resend :: bool
  ev_session_reject :: bool
  ev_warnings :: "string list"
  ev_errors :: "string list"
  ev_owned_application_message :: "ParsedMessageData option"

definition ProtocolEvent_new :: ProtocolEvent where
  "ProtocolEvent_new =
     \<lparr> ev_outbound_frames = [], ev_application_messages = [], ev_session_active = False, ev_disconnect = False,
       ev_poss_resend = False, ev_session_reject = False, ev_warnings = [], ev_errors = [],
       ev_owned_application_message = None \<rparr>"

definition push_frame :: "EncodedFrame \<Rightarrow> ProtocolEvent \<Rightarrow> ProtocolEvent" where
  "push_frame f e = e\<lparr> ev_outbound_frames := ev_outbound_frames e @ [f] \<rparr>"

definition push_message :: "MessageRef \<Rightarrow> ProtocolEvent \<Rightarrow> ProtocolEvent" where
  "push_message m e = e\<lparr> ev_application_messages := ev_application_messages e @ [m] \<rparr>"

definition push_warning :: "string \<Rightarrow> ProtocolEvent \<Rightarrow> ProtocolEvent" where
  "push_warning w e = e\<lparr> ev_warnings := ev_warnings e @ [w] \<rparr>"

definition push_error :: "string \<Rightarrow> ProtocolEvent \<Rightarrow> ProtocolEvent" where
  "push_error w e = e\<lparr> ev_errors := ev_errors e @ [w] \<rparr>"

definition MaterializeApplicationMessages :: "ProtocolEvent \<Rightarrow> ProtocolEvent" where
  "MaterializeApplicationMessages e =
     (let msgs = map (\<lambda>m. if \<not> ref_valid m \<or> owns_storage m then m else CopyRef (ref_message m)) (ev_application_messages e)
      in e\<lparr> ev_application_messages := msgs,
            ev_owned_application_message :=
              (if msgs \<noteq> [] \<and> owns_storage (hd msgs) then None else ev_owned_application_message e) \<rparr>)"

definition AdoptParsedApplicationMessage :: "ParsedMessageData \<Rightarrow> bytes \<Rightarrow> ProtocolEvent \<Rightarrow> ProtocolEvent" where
  "AdoptParsedApplicationMessage parsed raw e =
     (case ev_application_messages e of
        [message] \<Rightarrow>
          (if \<not> ref_valid message \<or> owns_storage message then e
           else let parsed = parsed\<lparr> pm_raw := raw \<rparr>
                in e\<lparr> ev_owned_application_message := Some parsed,
                      ev_application_messages := [BorrowedRef EventStorage parsed] \<rparr>)
      | _ \<Rightarrow> e)"

text \<open>
  What becomes of the references when the event they are in is moved: the owned message goes to a new
  place, and only a single borrowed reference is pointed to it there.
\<close>

fun release_ref :: "MessageRef \<Rightarrow> MessageRef" where
  "release_ref (BorrowedRef EventStorage p) = BorrowedRef Released p"
| "release_ref m = m"

definition RebindOwnedApplicationMessage :: "ProtocolEvent \<Rightarrow> ProtocolEvent" where
  "RebindOwnedApplicationMessage e =
     (case ev_owned_application_message e of
        None \<Rightarrow> e
      | Some parsed \<Rightarrow>
          (case ev_application_messages e of
             [message] \<Rightarrow>
               (if \<not> ref_valid message \<or> owns_storage message then e
                else e\<lparr> ev_application_messages := [BorrowedRef EventStorage parsed] \<rparr>)
           | _ \<Rightarrow> e))"

definition move_event :: "ProtocolEvent \<Rightarrow> ProtocolEvent" where
  "move_event e =
     RebindOwnedApplicationMessage
       (e\<lparr> ev_application_messages := map release_ref (ev_application_messages e) \<rparr>)"

section \<open>Configuration, environment and state\<close>

record AdminProtocolConfig =
  ac_session :: SessionConfig
  ac_transport_profile :: TransportSessionProfile
  ac_begin_string :: string
  ac_sender_comp_id :: string
  ac_target_comp_id :: string
  ac_default_appl_ver_id :: string
  ac_supported_app_msg_types :: "string list"
  ac_heartbeat_interval_seconds :: u32
  ac_sending_time_threshold_seconds :: u32
  ac_warmup_message_count :: u32
  ac_logon_fields :: "LogonField list"
  ac_timestamp_resolution :: TimestampResolution
  ac_application_messages_available :: bool
  ac_reset_seq_num_on_logon :: bool
  ac_reset_seq_num_on_logout :: bool
  ac_reset_seq_num_on_disconnect :: bool
  ac_refresh_on_logon :: bool
  ac_send_next_expected_msg_seq_num :: bool
  ac_validation_policy :: ValidationPolicy
  ac_validation_callback :: "ValidationCallback option"

text \<open>
  \<open>en_encode_template\<close> is the precompiled template of a message type, if there is one;
  \<open>en_field_enum\<close> the predicate of allowed values of a field the dictionary gives an enumeration;
  \<open>en_missing_required\<close> the first required field a message lacks, with the text of the status;
  \<open>en_from_chars\<close> the float parser of the standard library; \<open>en_now\<close> the reading of the
  system clock during the call, in nanoseconds.
\<close>

record 'st Env =
  en_SaveOutboundViewAndRecoveryState :: "MessageRecordView \<Rightarrow> SessionRecoveryState \<Rightarrow> 'st \<Rightarrow> Status \<times> 'st"
  en_SaveInboundViewAndRecoveryState :: "MessageRecordView \<Rightarrow> SessionRecoveryState \<Rightarrow> 'st \<Rightarrow> Status \<times> 'st"
  en_SaveRecoveryState :: "SessionRecoveryState \<Rightarrow> 'st \<Rightarrow> Status \<times> 'st"
  en_LoadRecoveryState :: "u64 \<Rightarrow> 'st \<Rightarrow> SessionRecoveryState Result"
  en_LoadOutboundRangeViews :: "u64 \<Rightarrow> u32 \<Rightarrow> u32 \<Rightarrow> 'st \<Rightarrow> MessageRecordViewRange Result"
  en_ResetSession :: "u64 \<Rightarrow> 'st \<Rightarrow> Status \<times> 'st"
  en_Refresh :: "'st \<Rightarrow> Status \<times> 'st"
  en_DecodeFixMessageView :: "bytes \<Rightarrow> bool \<Rightarrow> DecodedMessageView Result"
  en_encode_template :: "string \<Rightarrow> (MessageView \<Rightarrow> EncodeOptions \<Rightarrow> bytes Result) option"
  en_EncodeFixMessageToBuffer :: "MessageView \<Rightarrow> EncodeOptions \<Rightarrow> bytes Result"
  en_find_message :: "string \<Rightarrow> bool"
  en_field_enum :: "u32 \<Rightarrow> (string \<Rightarrow> bool) option"
  en_missing_required :: "string \<Rightarrow> MessageView \<Rightarrow> (u32 \<times> string) option"
  en_from_chars :: "bytes \<Rightarrow> (u64 \<times> nat) option"
  en_now :: nat

text \<open>The members of \<^verbatim>\<open>AdminProtocol::Impl\<close>; its reusable buffers carry no information between calls.\<close>

record 'st AdminProtocol =
  ap_config :: AdminProtocolConfig
  ap_store :: "'st option"
  ap_session :: SessionCore
  ap_outstanding_test_request_id :: string
  ap_logout_sent :: bool
  ap_test_request_sent_ns :: u64
  ap_logout_sent_ns :: u64
  ap_initialization_error :: "Status option"
  ap_deferred_gap_frames :: "bytes list"

section \<open>Operations with an outcome\<close>

text \<open>
  \<open>Fails\<close> is a status that is not \<open>Ok\<close>; \<open>NoResult\<close> stands for undefined behaviour and for a loop that
  does not end.
\<close>

datatype 'a outcome = Returns 'a | Fails Status | NoResult

type_synonym ('st, 'a) protocol = "'st AdminProtocol \<Rightarrow> 'a outcome \<times> 'st AdminProtocol"

definition ret :: "'a \<Rightarrow> ('st, 'a) protocol" where
  "ret x = (\<lambda>s. (Returns x, s))"

definition fail :: "Status \<Rightarrow> ('st, 'a) protocol" where
  "fail e = (\<lambda>s. (Fails e, s))"

definition no_result :: "('st, 'a) protocol" where
  "no_result = (\<lambda>s. (NoResult, s))"

definition bind :: "('st, 'a) protocol \<Rightarrow> ('a \<Rightarrow> ('st, 'b) protocol) \<Rightarrow> ('st, 'b) protocol" where
  "bind m f = (\<lambda>s. case m s of
     (Returns x, s') \<Rightarrow> f x s'
   | (Fails e, s') \<Rightarrow> (Fails e, s')
   | (NoResult, s') \<Rightarrow> (NoResult, s'))"

abbreviation and_do :: "('st, unit) protocol \<Rightarrow> ('st, 'b) protocol \<Rightarrow> ('st, 'b) protocol" where
  "and_do m n \<equiv> bind m (\<lambda>_. n)"

definition inspect :: "('st AdminProtocol \<Rightarrow> ('st, 'a) protocol) \<Rightarrow> ('st, 'a) protocol" where
  "inspect f = (\<lambda>s. f s s)"

definition update :: "('st AdminProtocol \<Rightarrow> 'st AdminProtocol) \<Rightarrow> ('st, unit) protocol" where
  "update f = (\<lambda>s. (Returns (), f s))"

text \<open>A call whose status is returned to the caller when it is not \<open>Ok\<close>.\<close>

definition check :: "Status \<Rightarrow> ('st, unit) protocol" where
  "check status = (if status_ok status then ret () else fail status)"

definition session_op :: "(SessionCore \<Rightarrow> Status \<times> SessionCore) \<Rightarrow> ('st, unit) protocol" where
  "session_op f = inspect (\<lambda>s.
     and_do (update (\<lambda>s. s\<lparr> ap_session := snd (f (ap_session s)) \<rparr>)) (check (fst (f (ap_session s)))))"

definition store_op :: "('st \<Rightarrow> Status \<times> 'st) \<Rightarrow> ('st, unit) protocol" where
  "store_op f = inspect (\<lambda>s. case ap_store s of
     None \<Rightarrow> ret ()
   | Some st \<Rightarrow> and_do (update (\<lambda>s. s\<lparr> ap_store := Some (snd (f st)) \<rparr>)) (check (fst (f st))))"

definition from_result :: "'a Result \<Rightarrow> ('st, 'a) protocol" where
  "from_result r = (case r of Inl e \<Rightarrow> fail e | Inr x \<Rightarrow> ret x)"

definition from_option :: "'a Result option \<Rightarrow> ('st, 'a) protocol" where
  "from_option r = (case r of None \<Rightarrow> no_result | Some r \<Rightarrow> from_result r)"

end
