(* ===== verification/Admin_Checks.thy ===== *)
theory Admin_Checks
  imports Admin_Types
begin

text \<open>
  The checks of \<^verbatim>\<open>session/admin_protocol.cpp\<close> that read a message and the configuration and change
  nothing: which fields a configured Logon may carry, whether an inbound message comes from the
  configured counterparty, and what an administrative or application message must contain.
\<close>

section \<open>Small predicates\<close>

abbreviation (input) kSessionRejectRequiredTagMissing :: u32 where "kSessionRejectRequiredTagMissing \<equiv> 1"
abbreviation (input) kSessionRejectValueIncorrect :: u32 where "kSessionRejectValueIncorrect \<equiv> 5"
abbreviation (input) kSessionRejectDecryptionProblem :: u32 where "kSessionRejectDecryptionProblem \<equiv> 7"
abbreviation (input) kSessionRejectCompIdProblem :: u32 where "kSessionRejectCompIdProblem \<equiv> 9"
abbreviation (input) kSessionRejectSendingTimeAccuracyProblem :: u32 where "kSessionRejectSendingTimeAccuracyProblem \<equiv> 10"
abbreviation (input) kSessionRejectInvalidMsgType :: u32 where "kSessionRejectInvalidMsgType \<equiv> 11"
abbreviation (input) kBusinessRejectReasonTag :: u32 where "kBusinessRejectReasonTag \<equiv> 380"
abbreviation (input) kBusinessRejectUnsupportedMessageType :: u32 where "kBusinessRejectUnsupportedMessageType \<equiv> 3"
abbreviation (input) kBusinessRejectApplicationNotAvailable :: u32 where "kBusinessRejectApplicationNotAvailable \<equiv> 4"

definition IsAdminMessage :: "string \<Rightarrow> bool" where
  "IsAdminMessage msg_type \<longleftrightarrow>
     msg_type = ''0'' \<or> msg_type = ''1'' \<or> msg_type = ''2'' \<or> msg_type = ''3'' \<or> msg_type = ''4'' \<or>
     msg_type = ''5'' \<or> msg_type = ''A''"

definition ShouldIgnoreInboundDecodeFailure :: "Status \<Rightarrow> bool" where
  "ShouldIgnoreInboundDecodeFailure status \<longleftrightarrow> status_code status = kFormatError"

definition IsPreActivationState :: "SessionState \<Rightarrow> bool" where
  "IsPreActivationState state \<longleftrightarrow> state = kConnected \<or> state = kPendingLogon"

definition IsActiveAdminState :: "SessionState \<Rightarrow> bool" where
  "IsActiveAdminState state \<longleftrightarrow> state = kActive \<or> state = kAwaitingLogout \<or> state = kResendProcessing"

definition AdminPhaseViolationText :: "SessionState \<Rightarrow> string \<Rightarrow> string option" where
  "AdminPhaseViolationText state msg_type =
     (if \<not> IsAdminMessage msg_type then None
      else if IsPreActivationState state \<and> msg_type \<noteq> ''A'' \<and> msg_type \<noteq> ''5''
      then Some (''received '' @ msg_type @ '' before Logon completed'')
      else if msg_type = ''A'' \<and> IsActiveAdminState state
      then Some ''received unexpected Logon after session activation''
      else None)"

definition HasBoolean :: "'st Env \<Rightarrow> MessageView \<Rightarrow> u32 \<Rightarrow> bool" where
  "HasBoolean env view tag \<longleftrightarrow> get_boolean (en_from_chars env) view tag = Some True"

definition GetInt :: "'st Env \<Rightarrow> MessageView \<Rightarrow> u32 \<Rightarrow> 64 word \<Rightarrow> 64 word" where
  "GetInt env view tag fallback = (case get_int (en_from_chars env) view tag of Some v \<Rightarrow> v | None \<Rightarrow> fallback)"

definition GetStringView :: "'st Env \<Rightarrow> MessageView \<Rightarrow> u32 \<Rightarrow> string" where
  "GetStringView env view tag = (case get_string (en_from_chars env) view tag of Some v \<Rightarrow> v | None \<Rightarrow> [])"

definition to_string :: "nat \<Rightarrow> string" where
  "to_string n = string_of (dec n)"

section \<open>The fields of a configured Logon\<close>

definition IsEngineManagedLogonField :: "u32 \<Rightarrow> bool" where
  "IsEngineManagedLogonField tag \<longleftrightarrow>
     tag \<in> {kMsgType, kEncryptMethod, kHeartBtInt, kResetSeqNumFlag, kNextExpectedMsgSeqNum} \<or> IsEncodeManagedTag tag"

fun validate_logon_fields :: "LogonField list \<Rightarrow> u32 set \<Rightarrow> Status" where
  "validate_logon_fields [] tags = Ok"
| "validate_logon_fields (field # rest) tags =
     (if lf_tag field = 0 then InvalidArgument ''logon field tag must be positive''
      else if lf_value field = [] then InvalidArgument ''logon field value must not be empty''
      else if IsEngineManagedLogonField (lf_tag field)
      then InvalidArgument ''logon field overrides an engine-managed Logon tag''
      else if lf_tag field \<in> tags then InvalidArgument ''duplicate logon field tag''
      else validate_logon_fields rest (insert (lf_tag field) tags))"

definition ValidateLogonFields :: "LogonField list \<Rightarrow> Status" where
  "ValidateLogonFields logon_fields = validate_logon_fields logon_fields {}"

section \<open>Rejections\<close>

text \<open>The out-parameters of a failed check; the check passes when there is none.\<close>

record Rejection =
  rj_ref_tag_id :: u32
  rj_reject_reason :: u32
  rj_text :: string
  rj_disconnect :: bool

abbreviation reject :: "u32 \<Rightarrow> u32 \<Rightarrow> string \<Rightarrow> bool \<Rightarrow> Rejection option" where
  "reject tag reason t disconnect \<equiv>
     Some \<lparr> rj_ref_tag_id = tag, rj_reject_reason = reason, rj_text = t, rj_disconnect = disconnect \<rparr>"

definition ValidateCompIds :: "AdminProtocolConfig \<Rightarrow> DecodedMessageView \<Rightarrow> Rejection option" where
  "ValidateCompIds config decoded =
     (let header = dm_header decoded; policy = ac_validation_policy config; is_logon = (h_msg_type header = ''A'')
      in if ac_begin_string config \<noteq> [] \<and> h_begin_string header \<noteq> ac_begin_string config
         then reject kBeginString kSessionRejectValueIncorrect ''unexpected BeginString on inbound frame'' True
         else if vp_enforce_comp_ids policy \<and> ac_target_comp_id config \<noteq> [] \<and>
                 h_sender_comp_id header \<noteq> ac_target_comp_id config
         then reject kSenderCompID kSessionRejectCompIdProblem ''unexpected SenderCompID on inbound frame'' True
         else if vp_enforce_comp_ids policy \<and> ac_sender_comp_id config \<noteq> [] \<and>
                 h_target_comp_id header \<noteq> ac_sender_comp_id config
         then reject kTargetCompID kSessionRejectCompIdProblem ''unexpected TargetCompID on inbound frame'' True
         else if is_logon \<and> vp_require_default_appl_ver_id_on_logon policy \<and>
                 tp_requires_default_appl_ver_id (ac_transport_profile config) \<and> h_default_appl_ver_id header = []
         then reject kDefaultApplVerID kSessionRejectRequiredTagMissing ''FIXT.1.1 logon requires DefaultApplVerID'' True
         else if is_logon \<and> vp_require_default_appl_ver_id_on_logon policy \<and> ac_default_appl_ver_id config \<noteq> [] \<and>
                 h_default_appl_ver_id header \<noteq> ac_default_appl_ver_id config
         then reject kDefaultApplVerID kSessionRejectValueIncorrect ''unexpected DefaultApplVerID on inbound frame'' True
         else None)"

definition ValidatePossDup :: "AdminProtocolConfig \<Rightarrow> DecodedMessageView \<Rightarrow> Status" where
  "ValidatePossDup config decoded =
     (if \<not> vp_require_orig_sending_time_on_poss_dup (ac_validation_policy config) then Ok
      else if \<not> h_poss_dup (dm_header decoded) then Ok
      else if h_orig_sending_time (dm_header decoded) \<noteq> [] then Ok
      else InvalidArgument ''PossDupFlag requires OrigSendingTime'')"

definition RejectUnsupportedSessionEncryption :: "MessageView \<Rightarrow> bool \<Rightarrow> Rejection option" where
  "RejectUnsupportedSessionEncryption view disconnect =
     (if \<not> has_field view kSecureDataLen \<and> \<not> has_field view kSecureData then None
      else reject (if has_field view kSecureData then kSecureData else kSecureDataLen) kSessionRejectDecryptionProblem
             ''session-layer SecureData is not supported by this runtime'' disconnect)"

text \<open>\<open>Inl\<close> is the rejection, with its reason and text.\<close>

definition ParseSequenceResetNewSeq :: "'st Env \<Rightarrow> MessageView \<Rightarrow> (u32 \<times> string) + u32" where
  "ParseSequenceResetNewSeq env view =
     (case get_int (en_from_chars env) view kNewSeqNo of
        None \<Rightarrow> Inl (kSessionRejectRequiredTagMissing, ''SequenceReset requires NewSeqNo'')
      | Some value \<Rightarrow>
          if sint value \<le> 0 then Inl (kSessionRejectRequiredTagMissing, ''SequenceReset requires NewSeqNo'')
          else Inr (ucast value))"

section \<open>Searching a message with its groups\<close>

text \<open>
  The recursion over repeating groups is bounded by \<open>fuel\<close>, the nesting depth; \<open>None\<close> is a message
  nested deeper than that. A parsed message nests at most as deep as it has entries.
\<close>

fun first_found :: "'a option option list \<Rightarrow> 'a option option" where
  "first_found [] = Some None"
| "first_found (None # rest) = None"
| "first_found (Some (Some x) # rest) = Some (Some x)"
| "first_found (Some None # rest) = first_found rest"

definition view_entries :: "MessageView \<Rightarrow> MessageView list" where
  "view_entries view =
     concat (map group_view_entries (List.map_filter (view_group_at view) [0..<view_group_count view]))"

fun FindFieldValue :: "(bytes \<Rightarrow> (u64 \<times> nat) option) \<Rightarrow> nat \<Rightarrow> MessageView \<Rightarrow> u32 \<Rightarrow> string option option" where
  "FindFieldValue fc 0 view tag = None"
| "FindFieldValue fc (Suc fuel) view tag =
     (case find (\<lambda>f. vw_tag f = tag) (List.map_filter (view_field_at fc view) [0..<view_field_count view]) of
        Some f \<Rightarrow> Some (Some (vw_string_value f))
      | None \<Rightarrow> first_found (map (\<lambda>entry. FindFieldValue fc fuel entry tag) (view_entries view)))"

definition enum_violated :: "'st Env \<Rightarrow> u32 \<times> string \<Rightarrow> bool" where
  "enum_violated env field =
     (case en_field_enum env (fst field) of None \<Rightarrow> False | Some allowed \<Rightarrow> \<not> allowed (snd field))"

definition enum_issue :: "u32 \<Rightarrow> ValidationIssue" where
  "enum_issue tag =
     \<lparr> vi_kind = kEnumValueNotAllowed, vi_tag = tag,
       vi_text = ''field '' @ to_string (unat tag) @ '' has an enum value not present in the bound dictionary'' \<rparr>"

fun FindEnumValidationIssueInView :: "'st Env \<Rightarrow> nat \<Rightarrow> MessageView \<Rightarrow> ValidationIssue option option" where
  "FindEnumValidationIssueInView env 0 view = None"
| "FindEnumValidationIssueInView env (Suc fuel) view =
     (case find (enum_violated env) (List.map_filter (view_raw_field_at view) [0..<view_field_count view]) of
        Some f \<Rightarrow> Some (Some (enum_issue (fst f)))
      | None \<Rightarrow> first_found (map (FindEnumValidationIssueInView env fuel) (view_entries view)))"

definition nesting_bound :: "DecodedMessageView \<Rightarrow> nat" where
  "nesting_bound decoded = Suc (length (pm_entries (dm_message decoded)))"

definition FindEnumValidationIssue :: "'st Env \<Rightarrow> AdminProtocolConfig \<Rightarrow> DecodedMessageView \<Rightarrow> ValidationIssue option option" where
  "FindEnumValidationIssue env config decoded =
     (if \<not> vp_validate_enum_values (ac_validation_policy config) \<and> ac_validation_callback config = None then Some None
      else FindEnumValidationIssueInView env (nesting_bound decoded) (dm_view decoded))"

definition issue_rejected :: "'st Env \<Rightarrow> AdminProtocolConfig \<Rightarrow> DecodedMessageView \<Rightarrow> ValidationIssue \<Rightarrow> bool option" where
  "issue_rejected env config decoded issue =
     map_option (\<lambda>found.
       ShouldRejectValidationIssue (ac_validation_policy config) issue (cfg_session_id (ac_session config))
         (h_msg_type (dm_header decoded)) (case found of Some v \<Rightarrow> v | None \<Rightarrow> []) (ac_validation_callback config))
     (FindFieldValue (en_from_chars env) (nesting_bound decoded) (dm_view decoded) (vi_tag issue))"

section \<open>What a message must contain\<close>

text \<open>
  The two checks below pass with \<open>Some None\<close>, reject with \<open>Some (Some r)\<close>, and give \<open>None\<close> for a
  message nested too deep to search.
\<close>

definition check_issue ::
    "'st Env \<Rightarrow> AdminProtocolConfig \<Rightarrow> DecodedMessageView \<Rightarrow> bool \<Rightarrow> ValidationIssue option \<Rightarrow>
     Rejection option option \<Rightarrow> Rejection option option" where
  "check_issue env config decoded disconnect found otherwise =
     (case found of
        None \<Rightarrow> otherwise
      | Some issue \<Rightarrow>
          (case issue_rejected env config decoded issue of
             None \<Rightarrow> None
           | Some False \<Rightarrow> otherwise
           | Some True \<Rightarrow>
               Some (reject (vi_tag issue) (ValidationIssueRejectReason (vi_kind issue)) (vi_text issue) disconnect)))"

definition logon_contents :: "'st Env \<Rightarrow> MessageView \<Rightarrow> Rejection option" where
  "logon_contents env view =
     (let encrypt_method = get_int (en_from_chars env) view kEncryptMethod;
          heartbeat_interval = get_int (en_from_chars env) view kHeartBtInt
      in if \<not> has_field view kEncryptMethod
         then reject kEncryptMethod kSessionRejectRequiredTagMissing ''Logon requires EncryptMethod'' True
         else if encrypt_method \<noteq> Some 0
         then reject kEncryptMethod kSessionRejectValueIncorrect ''Logon EncryptMethod must be 0'' True
         else if \<not> has_field view kHeartBtInt
         then reject kHeartBtInt kSessionRejectRequiredTagMissing ''Logon requires HeartBtInt'' True
         else if (case heartbeat_interval of None \<Rightarrow> True | Some v \<Rightarrow> sint v \<le> 0)
         then reject kHeartBtInt kSessionRejectValueIncorrect ''Logon HeartBtInt must be positive'' True
         else None)"

definition resend_request_contents :: "'st Env \<Rightarrow> MessageView \<Rightarrow> Rejection option" where
  "resend_request_contents env view =
     (let begin_seq = get_int (en_from_chars env) view kBeginSeqNo; end_seq = get_int (en_from_chars env) view kEndSeqNo
      in if \<not> has_field view kBeginSeqNo
         then reject kBeginSeqNo kSessionRejectRequiredTagMissing ''ResendRequest requires BeginSeqNo'' False
         else if \<not> has_field view kEndSeqNo
         then reject kEndSeqNo kSessionRejectRequiredTagMissing ''ResendRequest requires EndSeqNo'' False
         else (case begin_seq of
           None \<Rightarrow> reject kBeginSeqNo kSessionRejectValueIncorrect ''ResendRequest BeginSeqNo must be positive'' False
         | Some b \<Rightarrow>
             if sint b \<le> 0
             then reject kBeginSeqNo kSessionRejectValueIncorrect ''ResendRequest BeginSeqNo must be positive'' False
             else (case end_seq of
               None \<Rightarrow> reject kEndSeqNo kSessionRejectValueIncorrect ''ResendRequest EndSeqNo must be zero or positive'' False
             | Some e \<Rightarrow>
                 if sint e < 0
                 then reject kEndSeqNo kSessionRejectValueIncorrect ''ResendRequest EndSeqNo must be zero or positive'' False
                 else if e \<noteq> 0 \<and> sint b > sint e
                 then reject kEndSeqNo kSessionRejectValueIncorrect
                        ''ResendRequest BeginSeqNo must be less than or equal to EndSeqNo'' False
                 else None)))"

definition ValidateAdministrativeMessage ::
    "'st Env \<Rightarrow> AdminProtocolConfig \<Rightarrow> DecodedMessageView \<Rightarrow> Rejection option option" where
  "ValidateAdministrativeMessage env config decoded =
     (let msg_type = h_msg_type (dm_header decoded); view = dm_view decoded; issue = dm_validation_issue decoded
      in if \<not> IsAdminMessage msg_type then Some None
         else case RejectUnsupportedSessionEncryption view False of
           Some r \<Rightarrow> Some (Some r)
         | None \<Rightarrow>
             check_issue env config decoded (msg_type = ''A'') (if issue_present issue then Some issue else None)
               (case FindEnumValidationIssue env config decoded of
                  None \<Rightarrow> None
                | Some found \<Rightarrow>
                    check_issue env config decoded (msg_type = ''A'') found
                      (Some (if msg_type = ''A'' then logon_contents env view
                             else if msg_type = ''1'' \<and> \<not> has_field view kTestReqID
                             then reject kTestReqID kSessionRejectRequiredTagMissing ''TestRequest requires TestReqID'' False
                             else if msg_type = ''2'' then resend_request_contents env view
                             else None))))"

definition ValidateApplicationMessage ::
    "'st Env \<Rightarrow> AdminProtocolConfig \<Rightarrow> DecodedMessageView \<Rightarrow> Rejection option option" where
  "ValidateApplicationMessage env config decoded =
     (let msg_type = h_msg_type (dm_header decoded); view = dm_view decoded; issue = dm_validation_issue decoded;
          policy = ac_validation_policy config
      in if IsAdminMessage msg_type then Some None
         else case RejectUnsupportedSessionEncryption view False of
           Some r \<Rightarrow> Some (Some r)
         | None \<Rightarrow>
             if \<not> en_find_message env msg_type then
               (if \<not> vp_require_known_app_message_type policy then Some None
                else Some (reject kMsgType kSessionRejectInvalidMsgType
                       ''application message type is not present in the bound dictionary'' False))
             else
               check_issue env config decoded False (if issue_present issue then Some issue else None)
                 (Some (if \<not> vp_require_required_fields_on_app_messages policy then None
                        else case en_missing_required env msg_type view of
                          None \<Rightarrow> None
                        | Some (missing_tag, t) \<Rightarrow> reject missing_tag kSessionRejectRequiredTagMissing t False)))"

definition ResolveApplicationBusinessRejectReason ::
    "'st Env \<Rightarrow> AdminProtocolConfig \<Rightarrow> DecodedMessageView \<Rightarrow> u32 option" where
  "ResolveApplicationBusinessRejectReason env config decoded =
     (let msg_type = h_msg_type (dm_header decoded)
      in if IsAdminMessage msg_type then None
         else if ac_application_messages_available config \<and> ac_supported_app_msg_types config = [] then None
         else if \<not> en_find_message env msg_type then None
         else if \<not> ac_application_messages_available config then Some kBusinessRejectApplicationNotAvailable
         else if msg_type \<in> set (ac_supported_app_msg_types config) then None
         else Some kBusinessRejectUnsupportedMessageType)"

end
