(* ===== verification/Admin_Protocol.thy ===== *)
theory Admin_Protocol
  imports Admin_Checks
begin

text \<open>
  The operations of \<^verbatim>\<open>AdminProtocol\<close> (\<^verbatim>\<open>session/admin_protocol.cpp\<close>), in the order of the source where
  the calls between them allow it: logon and logout, heartbeats, sequence numbers and gaps, replay,
  rejects, and the framing and persistence of every outbound message.
\<close>

section \<open>Construction and persistence\<close>

definition recovery_state :: "SessionSnapshot \<Rightarrow> SessionRecoveryState" where
  "recovery_state snapshot =
     \<lparr> rs_session_id = snap_session_id snapshot, rs_next_in_seq = snap_next_in_seq snapshot,
       rs_next_out_seq = snap_next_out_seq snapshot, rs_last_inbound_ns = snap_last_inbound_ns snapshot,
       rs_last_outbound_ns = snap_last_outbound_ns snapshot, rs_active = (snap_state snapshot \<noteq> kDisconnected) \<rparr>"

definition AdminProtocol_new :: "'st Env \<Rightarrow> AdminProtocolConfig \<Rightarrow> 'st option \<Rightarrow> 'st AdminProtocol" where
  "AdminProtocol_new env config store =
     (let logon_status = ValidateLogonFields (ac_logon_fields config);
          init_error = (if status_ok logon_status then None else Some logon_status);
          session = SetWarmupCount (ac_warmup_message_count config) (SessionCore_new (ac_session config));
          config = (if tp_begin_string (ac_transport_profile config) \<noteq> ac_begin_string config \<and> ac_begin_string config \<noteq> []
                    then config\<lparr> ac_transport_profile := FromBeginString (ac_begin_string config) \<rparr> else config);
          session = set_transport_profile (Some (ac_transport_profile config)) session;
          protocol =
            \<lparr> ap_config = config, ap_store = store, ap_session = session, ap_outstanding_test_request_id = [],
              ap_logout_sent = False, ap_test_request_sent_ns = 0, ap_logout_sent_ns = 0,
              ap_initialization_error = init_error, ap_deferred_gap_frames = [] \<rparr>
      in case store of
           None \<Rightarrow> protocol
         | Some st \<Rightarrow>
             (case en_LoadRecoveryState env (cfg_session_id (sc_config session)) st of
                Inl e \<Rightarrow>
                  (if status_code e \<noteq> kNotFound \<and> init_error = None
                   then protocol\<lparr> ap_initialization_error := Some e \<rparr> else protocol)
              | Inr recovery \<Rightarrow>
                  (case RestoreSequenceState (rs_next_in_seq recovery) (rs_next_out_seq recovery) session of
                     (status, session') \<Rightarrow>
                       protocol\<lparr> ap_session := session',
                         ap_initialization_error :=
                           (if \<not> status_ok status \<and> init_error = None then Some status else init_error) \<rparr>)))"

definition EnsureInitialized :: "('st, unit) protocol" where
  "EnsureInitialized = inspect (\<lambda>s. case ap_initialization_error s of Some e \<Rightarrow> check e | None \<Rightarrow> ret ())"

definition PersistRecoveryState :: "'st Env \<Rightarrow> ('st, unit) protocol" where
  "PersistRecoveryState env = inspect (\<lambda>s.
     store_op (en_SaveRecoveryState env (recovery_state (Snapshot (ap_session s)))))"

definition RefreshSessionStateFromStore :: "'st Env \<Rightarrow> ('st, unit) protocol" where
  "RefreshSessionStateFromStore env = inspect (\<lambda>s.
     if ap_store s = None then ret ()
     else and_do (store_op (en_Refresh env)) (inspect (\<lambda>s.
       case ap_store s of
         None \<Rightarrow> ret ()
       | Some st \<Rightarrow>
           (case en_LoadRecoveryState env (cfg_session_id (sc_config (ap_session s))) st of
              Inl e \<Rightarrow> if status_code e = kNotFound then session_op (RestoreSequenceState 1 1) else fail e
            | Inr recovery \<Rightarrow>
                session_op (RestoreSequenceState (rs_next_in_seq recovery) (rs_next_out_seq recovery))))))"

definition ResetSessionState :: "'st Env \<Rightarrow> u32 \<Rightarrow> u32 \<Rightarrow> bool \<Rightarrow> ('st, unit) protocol" where
  "ResetSessionState env next_in_seq next_out_seq reset_store =
     and_do (inspect (\<lambda>s. if reset_store then store_op (en_ResetSession env (cfg_session_id (sc_config (ap_session s))))
                          else ret ()))
       (and_do (session_op (RestoreSequenceState next_in_seq next_out_seq)) (PersistRecoveryState env))"

section \<open>Outbound frames\<close>

definition AllocateSeq :: "('st, u32) protocol" where
  "AllocateSeq = inspect (\<lambda>s. case AllocateOutboundSeq (ap_session s) of
     (r, session) \<Rightarrow> and_do (update (\<lambda>s. s\<lparr> ap_session := session \<rparr>)) (from_result r))"

definition encode_options ::
    "AdminProtocolConfig \<Rightarrow> u32 \<Rightarrow> bool \<Rightarrow> string \<Rightarrow> SessionSendEnvelopeView \<Rightarrow> EncodeOptions" where
  "encode_options config seq_num poss_dup orig_sending_time envelope =
     EncodeOptions_new\<lparr>
       eo_begin_string := bytes_of (ac_begin_string config),
       eo_sender_comp_id := bytes_of (ac_sender_comp_id config),
       eo_target_comp_id := bytes_of (ac_target_comp_id config),
       eo_default_appl_ver_id := bytes_of (ac_default_appl_ver_id config),
       eo_appl_ver_id := bytes_of (se_appl_ver_id envelope),
       eo_orig_sending_time := bytes_of orig_sending_time,
       eo_timestamp_resolution := ac_timestamp_resolution config,
       eo_msg_seq_num := seq_num,
       eo_poss_dup := poss_dup,
       eo_sender_sub_id := bytes_of (se_sender_sub_id envelope),
       eo_target_sub_id := bytes_of (se_target_sub_id envelope) \<rparr>"

definition encode_message :: "'st Env \<Rightarrow> MessageView \<Rightarrow> EncodeOptions \<Rightarrow> bytes Result" where
  "encode_message env message options =
     (case (if view_msg_type message = [] then None else en_encode_template env (view_msg_type message)) of
        None \<Rightarrow> en_EncodeFixMessageToBuffer env message options
      | Some template_encoder \<Rightarrow>
          (case template_encoder message options of
             Inr encoded \<Rightarrow> Inr encoded
           | Inl _ \<Rightarrow> en_EncodeFixMessageToBuffer env message options))"

definition FinalizeEncodedFrame ::
    "'st Env \<Rightarrow> string \<Rightarrow> bool \<Rightarrow> u64 \<Rightarrow> bool \<Rightarrow> bool \<Rightarrow> u16 \<Rightarrow> u32 \<Rightarrow> bytes \<Rightarrow> ('st, EncodedFrame) protocol" where
  "FinalizeEncodedFrame env msg_type admin timestamp_ns persist poss_dup extra_record_flags seq_num encoded =
     (let frame = \<lparr> fr_bytes = frame_assign encoded, fr_msg_type = msg_type, fr_admin = admin \<rparr>;
          flags = extra_record_flags;
          flags = (if admin then flags OR kAdmin else flags);
          flags = (if poss_dup then flags OR kPossDup else flags)
      in and_do (session_op (RecordOutboundActivity timestamp_ns))
        (and_do
          (inspect (\<lambda>s.
             if persist \<and> ap_store s \<noteq> None then
               store_op (en_SaveOutboundViewAndRecoveryState env
                 \<lparr> mv_session_id = cfg_session_id (sc_config (ap_session s)), mv_seq_num = seq_num,
                   mv_timestamp_ns = timestamp_ns, mv_flags = flags, mv_payload = frame_view (fr_bytes frame),
                   mv_body_start_offset = ComputeBodyStartOffset (frame_view (fr_bytes frame)) \<rparr>
                 (recovery_state (Snapshot (ap_session s))))
             else PersistRecoveryState env))
          (ret frame)))"

definition EncodeFrame ::
    "'st Env \<Rightarrow> MessageView \<Rightarrow> bool \<Rightarrow> u64 \<Rightarrow> bool \<Rightarrow> bool \<Rightarrow> bool \<Rightarrow> u16 \<Rightarrow> u32 \<Rightarrow> string \<Rightarrow>
     SessionSendEnvelopeView \<Rightarrow> ('st, EncodedFrame) protocol" where
  "EncodeFrame env message admin timestamp_ns persist poss_dup allocate_seq extra_record_flags seq_override
     orig_sending_time envelope =
     bind (if allocate_seq then AllocateSeq else ret seq_override) (\<lambda>seq_num. inspect (\<lambda>s.
       bind (from_result (encode_message env message
               (encode_options (ap_config s) seq_num poss_dup orig_sending_time envelope)))
         (FinalizeEncodedFrame env (view_msg_type message) admin timestamp_ns persist poss_dup extra_record_flags seq_num)))"

definition EncodeFrame_encoded ::
    "'st Env \<Rightarrow> EncodedApplicationMessageView \<Rightarrow> bool \<Rightarrow> u64 \<Rightarrow> bool \<Rightarrow> bool \<Rightarrow> bool \<Rightarrow> u16 \<Rightarrow> u32 \<Rightarrow> string \<Rightarrow>
     SessionSendEnvelopeView \<Rightarrow> EncodedOutboundExtrasView \<Rightarrow> ('st, EncodedFrame) protocol" where
  "EncodeFrame_encoded env message admin timestamp_ns persist poss_dup allocate_seq extra_record_flags seq_override
     orig_sending_time envelope extras =
     bind (if allocate_seq then AllocateSeq else ret seq_override) (\<lambda>seq_num. inspect (\<lambda>s.
       bind (from_result (EncodePreEncodedApplicationToBuffer (en_now env) message
               (encode_options (ap_config s) seq_num poss_dup orig_sending_time envelope)
               (if extras_empty extras then am_extras message else extras)))
         (FinalizeEncodedFrame env (string_of (am_msg_type message)) admin timestamp_ns persist poss_dup
            extra_record_flags seq_num)))"

text \<open>The arguments with which every persisted administrative message is encoded.\<close>

definition encode_admin :: "'st Env \<Rightarrow> MessageData \<Rightarrow> u64 \<Rightarrow> ('st, EncodedFrame) protocol" where
  "encode_admin env message timestamp_ns =
     EncodeFrame env (Message_view message) True timestamp_ns True False True 0 0 [] no_envelope"

definition BuildAdminMessage :: "string \<Rightarrow> MessageData" where
  "BuildAdminMessage msg_type = set_string kMsgType msg_type (MessageDataWriter_new msg_type)"

definition BuildLogonFrame :: "'st Env \<Rightarrow> u64 \<Rightarrow> bool \<Rightarrow> ('st, EncodedFrame) protocol" where
  "BuildLogonFrame env timestamp_ns reset_seq_num = inspect (\<lambda>s.
     let config = ap_config s;
         builder = BuildAdminMessage ''A'';
         builder = set_int kHeartBtInt (ucast (ac_heartbeat_interval_seconds config)) (set_int kEncryptMethod 0 builder);
         builder = (if reset_seq_num then set_boolean kResetSeqNumFlag True builder else builder);
         builder = (if ac_send_next_expected_msg_seq_num config \<and>
                       tp_supports_next_expected_msg_seq_num (ac_transport_profile config)
                    then set_int kNextExpectedMsgSeqNum (ucast (snap_next_in_seq (Snapshot (ap_session s)))) builder
                    else builder);
         builder = fold (\<lambda>field. add_string (lf_tag field) (lf_value field)) (ac_logon_fields config) builder
     in encode_admin env builder timestamp_ns)"

definition BuildHeartbeatFrame :: "'st Env \<Rightarrow> u64 \<Rightarrow> string \<Rightarrow> ('st, EncodedFrame) protocol" where
  "BuildHeartbeatFrame env timestamp_ns test_request_id =
     encode_admin env
       (if test_request_id \<noteq> [] then set_string kTestReqID test_request_id (BuildAdminMessage ''0'')
        else BuildAdminMessage ''0'') timestamp_ns"

definition BuildTestRequestFrame :: "'st Env \<Rightarrow> u64 \<Rightarrow> string \<Rightarrow> ('st, EncodedFrame) protocol" where
  "BuildTestRequestFrame env timestamp_ns test_request_id =
     encode_admin env (set_string kTestReqID test_request_id (BuildAdminMessage ''1'')) timestamp_ns"

definition BuildResendRequestFrame :: "'st Env \<Rightarrow> u32 \<Rightarrow> u32 \<Rightarrow> u64 \<Rightarrow> ('st, EncodedFrame) protocol" where
  "BuildResendRequestFrame env begin_seq end_seq timestamp_ns =
     encode_admin env
       (set_int kEndSeqNo (ucast end_seq) (set_int kBeginSeqNo (ucast begin_seq) (BuildAdminMessage ''2''))) timestamp_ns"

definition BuildGapFillFrame :: "'st Env \<Rightarrow> u32 \<Rightarrow> u32 \<Rightarrow> u64 \<Rightarrow> ('st, EncodedFrame) protocol" where
  "BuildGapFillFrame env begin_seq new_seq_num timestamp_ns =
     (let builder = BuildAdminMessage ''4'';
          builder = set_int kNewSeqNo (ucast new_seq_num) (set_boolean kGapFillFlag True builder);
          builder = set_boolean kPossDupFlag True builder
      in EncodeFrame env (Message_view builder) True timestamp_ns False True False kGapFill begin_seq [] no_envelope)"

definition BuildRejectFrame ::
    "'st Env \<Rightarrow> u32 \<Rightarrow> string \<Rightarrow> u32 \<Rightarrow> u32 \<Rightarrow> string \<Rightarrow> u64 \<Rightarrow> ('st, EncodedFrame) protocol" where
  "BuildRejectFrame env ref_seq_num ref_msg_type ref_tag_id reject_reason reason_text timestamp_ns =
     (let builder = BuildAdminMessage ''3'';
          builder = set_int kRefSeqNum (ucast ref_seq_num) builder;
          builder = set_string kRefMsgType ref_msg_type builder;
          builder = (if ref_tag_id \<noteq> 0 then set_int kRefTagID (ucast ref_tag_id) builder else builder);
          builder = set_int kRejectReason (ucast reject_reason) builder;
          builder = (if reason_text \<noteq> [] then set_string kText reason_text builder else builder)
      in encode_admin env builder timestamp_ns)"

definition Admin_BeginLogout :: "'st Env \<Rightarrow> string \<Rightarrow> u64 \<Rightarrow> ('st, EncodedFrame) protocol" where
  "Admin_BeginLogout env reason_text timestamp_ns =
     and_do EnsureInitialized (inspect (\<lambda>s.
       if ap_logout_sent s then fail (InvalidArgument ''logout already sent'')
       else and_do
         (if sc_state (ap_session s) = kActive \<or> sc_state (ap_session s) = kResendProcessing
          then session_op BeginLogout else ret ())
         (let builder = BuildAdminMessage ''5'';
              builder = (if reason_text \<noteq> [] then set_string kText reason_text builder else builder)
          in and_do (update (\<lambda>s. s\<lparr> ap_logout_sent := True, ap_logout_sent_ns := timestamp_ns \<rparr>))
               (encode_admin env builder timestamp_ns))))"

definition SendApplication ::
    "'st Env \<Rightarrow> MessageView \<Rightarrow> u64 \<Rightarrow> SessionSendEnvelopeView \<Rightarrow> ('st, EncodedFrame) protocol" where
  "SendApplication env message timestamp_ns envelope =
     and_do EnsureInitialized (inspect (\<lambda>s.
       if sc_state (ap_session s) \<noteq> kActive \<and> sc_state (ap_session s) \<noteq> kAwaitingLogout
       then fail (InvalidArgument ''cannot send application payload on an inactive FIX session'')
       else EncodeFrame env message False timestamp_ns True False True 0 0 [] envelope))"

definition SendEncodedApplication ::
    "'st Env \<Rightarrow> EncodedApplicationMessageView \<Rightarrow> u64 \<Rightarrow> SessionSendEnvelopeView \<Rightarrow> EncodedOutboundExtrasView \<Rightarrow>
     ('st, EncodedFrame) protocol" where
  "SendEncodedApplication env message timestamp_ns envelope extras =
     and_do EnsureInitialized (inspect (\<lambda>s.
       if sc_state (ap_session s) \<noteq> kActive \<and> sc_state (ap_session s) \<noteq> kAwaitingLogout
       then fail (InvalidArgument ''cannot send application payload on an inactive FIX session'')
       else EncodeFrame_encoded env message False timestamp_ns True False True 0 0 [] envelope extras))"

end
