(* ===== verification/Admin_Inbound.thy ===== *)
theory Admin_Inbound
  imports Admin_Protocol
begin

text \<open>
  The reactive half of \<^verbatim>\<open>AdminProtocol\<close>: the replay of stored messages, the handling of an inbound
  message, of the transport and of the timer. \<^verbatim>\<open>OnInbound\<close> is split along its early returns.
\<close>

section \<open>Replay\<close>

text \<open>The inner loop: from a number that cannot be replayed to the next one that can.\<close>

partial_function (option) gap_scan :: "MessageRecordView list \<Rightarrow> u32 \<Rightarrow> u32 \<Rightarrow> nat \<Rightarrow> (u32 \<times> nat) option" where
  "gap_scan records bounded_end seq record_index =
     (if seq \<le> bounded_end then
        (if record_index < length records \<and> mv_seq_num (records ! record_index) = seq then
           (if \<not> view_is_admin (records ! record_index) then Some (seq, record_index)
            else gap_scan records bounded_end (seq + 1) (record_index + 1))
         else gap_scan records bounded_end (seq + 1) record_index)
      else Some (seq, record_index))"

definition replayable :: "MessageRecordView list \<Rightarrow> nat \<Rightarrow> u32 \<Rightarrow> bool" where
  "replayable records record_index seq \<longleftrightarrow>
     record_index < length records \<and> mv_seq_num (records ! record_index) = seq \<and> \<not> view_is_admin (records ! record_index)"

definition replay_options :: "'st Env \<Rightarrow> AdminProtocolConfig \<Rightarrow> ReplayOptions" where
  "replay_options env config =
     \<lparr> ro_sender_comp_id = bytes_of (ac_sender_comp_id config), ro_sender_sub_id = [],
       ro_target_comp_id = bytes_of (ac_target_comp_id config), ro_target_sub_id = [],
       ro_begin_string = bytes_of (ac_begin_string config),
       ro_default_appl_ver_id = bytes_of (ac_default_appl_ver_id config), ro_appl_ver_id = [],
       ro_on_behalf_of_comp_id = [], ro_deliver_to_comp_id = [], ro_msg_seq_num = 0,
       ro_sending_time = CurrentUtcTimestamp (en_now env) (ac_timestamp_resolution config),
       ro_orig_sending_time = [], ro_poss_resend = False, ro_delimiter = kFixSoh, ro_zero_copy_body = False \<rparr>"

definition replay_record :: "ReplayOptions \<Rightarrow> MessageRecordView \<Rightarrow> EncodedFrame Result option" where
  "replay_record replay_opts record =
     (case (if mv_body_start_offset record = 0 then DecodeRawPassThrough (mv_payload record) kFixSoh False
            else DecodeRawPassThrough_at (mv_payload record) (mv_body_start_offset record) kFixSoh False) of
        None \<Rightarrow> None
      | Some (Inl e) \<Rightarrow> Some (Inl e)
      | Some (Inr parsed) \<Rightarrow>
          (case EncodeReplayInto parsed
                  (replay_opts\<lparr> ro_msg_seq_num := mv_seq_num record, ro_orig_sending_time := rp_sending_time parsed \<rparr>) of
             None \<Rightarrow> None
           | Some (Inl e) \<Rightarrow> Some (Inl e)
           | Some (Inr encoded) \<Rightarrow>
               Some (Inr \<lparr> fr_bytes = encoded, fr_msg_type = string_of (rp_msg_type parsed), fr_admin = False \<rparr>)))"

partial_function (option) replay_frames ::
    "'st Env \<Rightarrow> u64 \<Rightarrow> ReplayOptions \<Rightarrow> MessageRecordView list \<Rightarrow> u32 \<Rightarrow> u32 \<Rightarrow> nat \<Rightarrow> EncodedFrame list \<Rightarrow>
     'st AdminProtocol \<Rightarrow> (EncodedFrame list outcome \<times> 'st AdminProtocol) option" where
  "replay_frames env timestamp_ns replay_opts records bounded_end seq record_index frames s =
     (if seq \<le> bounded_end then
        (if \<not> replayable records record_index seq then
           (case gap_scan records bounded_end seq record_index of
              None \<Rightarrow> None
            | Some (next_seq, next_index) \<Rightarrow>
                (case BuildGapFillFrame env seq next_seq timestamp_ns s of
                   (Returns gap_fill, s') \<Rightarrow>
                     replay_frames env timestamp_ns replay_opts records bounded_end next_seq next_index
                       (frames @ [gap_fill]) s'
                 | (Fails e, s') \<Rightarrow> Some (Fails e, s')
                 | (NoResult, s') \<Rightarrow> Some (NoResult, s')))
         else
           (case replay_record replay_opts (records ! record_index) of
              None \<Rightarrow> Some (NoResult, s)
            | Some (Inl e) \<Rightarrow> Some (Fails e, s)
            | Some (Inr frame) \<Rightarrow>
                replay_frames env timestamp_ns replay_opts records bounded_end (seq + 1) (record_index + 1)
                  (frames @ [frame]) s))
      else Some (Returns frames, s))"

declare gap_scan.simps [code] replay_frames.simps [code]

text \<open>\<open>None\<close>, a loop that does not end, is no result.\<close>

definition ending :: "('a outcome \<times> 'st AdminProtocol) option \<Rightarrow> ('st, 'a) protocol" where
  "ending r = (\<lambda>s. case r of None \<Rightarrow> (NoResult, s) | Some x \<Rightarrow> x)"

definition bounded_end_of :: "u32 \<Rightarrow> u32 \<Rightarrow> u32" where
  "bounded_end_of end_seq next_out_seq =
     (if end_seq = 0 \<or> end_seq \<ge> next_out_seq then next_out_seq - 1 else end_seq)"

definition ReplayOutbound :: "'st Env \<Rightarrow> u32 \<Rightarrow> u32 \<Rightarrow> u64 \<Rightarrow> ('st, EncodedFrame list) protocol" where
  "ReplayOutbound env begin_seq end_seq timestamp_ns = inspect (\<lambda>s.
     case ap_store s of
       None \<Rightarrow> ret []
     | Some st \<Rightarrow>
         (let bounded_end = bounded_end_of end_seq (snap_next_out_seq (Snapshot (ap_session s)))
          in if bounded_end < begin_seq \<or> bounded_end = 0 then ret []
             else bind (from_result (en_LoadOutboundRangeViews env (cfg_session_id (sc_config (ap_session s)))
                          begin_seq bounded_end st)) (\<lambda>range_buffer. inspect (\<lambda>s.
               ending (replay_frames env timestamp_ns (replay_options env (ap_config s)) (range_records range_buffer)
                 bounded_end begin_seq 0 [] s)))))"

definition ReplayCounterpartyExpectedRange ::
    "'st Env \<Rightarrow> u32 \<Rightarrow> u32 \<Rightarrow> u64 \<Rightarrow> ProtocolEvent \<Rightarrow> ('st, ProtocolEvent) protocol" where
  "ReplayCounterpartyExpectedRange env counterparty_next_expected pre_logon_next_out timestamp_ns event =
     (if counterparty_next_expected \<ge> pre_logon_next_out then ret event
      else bind (ReplayOutbound env counterparty_next_expected (pre_logon_next_out - 1) timestamp_ns) (\<lambda>replayed.
        ret (event\<lparr> ev_outbound_frames := ev_outbound_frames event @ replayed \<rparr>)))"

section \<open>Transport\<close>

definition Admin_OnTransportConnected :: "'st Env \<Rightarrow> u64 \<Rightarrow> ('st, ProtocolEvent) protocol" where
  "Admin_OnTransportConnected env timestamp_ns =
     and_do EnsureInitialized (
     and_do (inspect (\<lambda>s. if ac_refresh_on_logon (ap_config s) then RefreshSessionStateFromStore env else ret ())) (
     and_do (session_op OnTransportConnected) (
     and_do (PersistRecoveryState env) (inspect (\<lambda>s.
       if \<not> cfg_is_initiator (ac_session (ap_config s)) then ret ProtocolEvent_new
       else and_do (if ac_reset_seq_num_on_logon (ap_config s) then ResetSessionState env 1 1 True else ret ()) (
         and_do (session_op BeginLogon) (
         bind (BuildLogonFrame env timestamp_ns (ac_reset_seq_num_on_logon (ap_config s))) (\<lambda>logon.
           ret (push_frame logon ProtocolEvent_new)))))))))"

definition Admin_OnTransportClosed :: "'st Env \<Rightarrow> ('st, unit) protocol" where
  "Admin_OnTransportClosed env =
     and_do EnsureInitialized (inspect (\<lambda>s.
       let state_before_close = sc_state (ap_session s);
           reset_for_logout = (ac_reset_seq_num_on_logout (ap_config s) \<and> state_before_close = kAwaitingLogout);
           reset_for_disconnect = (ac_reset_seq_num_on_disconnect (ap_config s) \<and> state_before_close \<noteq> kAwaitingLogout)
       in and_do (update (\<lambda>s. s\<lparr> ap_outstanding_test_request_id := [], ap_logout_sent := False,
                    ap_test_request_sent_ns := 0, ap_logout_sent_ns := 0, ap_deferred_gap_frames := [] \<rparr>)) (
          and_do (session_op OnTransportClosed)
            (if reset_for_logout \<or> reset_for_disconnect then ResetSessionState env 1 1 True
             else PersistRecoveryState env))))"

section \<open>Rejects and logouts\<close>

definition RejectInbound ::
    "'st Env \<Rightarrow> DecodedMessageView \<Rightarrow> u32 \<Rightarrow> u32 \<Rightarrow> string \<Rightarrow> u64 \<Rightarrow> bool \<Rightarrow> ('st, ProtocolEvent) protocol" where
  "RejectInbound env decoded ref_tag_id reject_reason reason_text timestamp_ns disconnect =
     (let event = (if reject_reason = kSessionRejectInvalidMsgType then push_warning reason_text ProtocolEvent_new
                   else push_error reason_text ProtocolEvent_new)
      in if disconnect \<and> h_msg_type (dm_header decoded) = ''A'' then
           bind (Admin_BeginLogout env reason_text timestamp_ns) (\<lambda>logout.
             ret ((push_frame logout event)\<lparr> ev_disconnect := True \<rparr>))
         else
           bind (BuildRejectFrame env (h_msg_seq_num (dm_header decoded)) (view_msg_type (dm_view decoded)) ref_tag_id
                   reject_reason reason_text timestamp_ns) (\<lambda>frame.
             ret ((push_frame frame event)\<lparr> ev_disconnect := disconnect \<rparr>)))"

definition reject_with :: "'st Env \<Rightarrow> DecodedMessageView \<Rightarrow> u64 \<Rightarrow> Rejection \<Rightarrow> ('st, ProtocolEvent) protocol" where
  "reject_with env decoded timestamp_ns r =
     RejectInbound env decoded (rj_ref_tag_id r) (rj_reject_reason r) (rj_text r) timestamp_ns (rj_disconnect r)"

definition reject_then_logout ::
    "'st Env \<Rightarrow> DecodedMessageView \<Rightarrow> u32 \<Rightarrow> u32 \<Rightarrow> string \<Rightarrow> u64 \<Rightarrow> ('st, ProtocolEvent) protocol" where
  "reject_then_logout env decoded ref_tag_id reject_reason reason_text timestamp_ns =
     bind (RejectInbound env decoded ref_tag_id reject_reason reason_text timestamp_ns False) (\<lambda>event.
     bind (Admin_BeginLogout env reason_text timestamp_ns) (\<lambda>logout.
       ret ((push_frame logout event)\<lparr> ev_disconnect := True \<rparr>)))"

definition ConsumeResend :: "('st, unit) protocol" where
  "ConsumeResend = inspect (\<lambda>s. case ConsumeResendCompleted (ap_session s) of
     (completed, session) \<Rightarrow> update (\<lambda>s. s\<lparr> ap_session := session,
       ap_outstanding_test_request_id := (if completed then [] else ap_outstanding_test_request_id s) \<rparr>))"

definition ConsumeExpectedInboundBeforeReject ::
    "'st Env \<Rightarrow> DecodedMessageView \<Rightarrow> SessionSnapshot \<Rightarrow> u64 \<Rightarrow> ('st, unit) protocol" where
  "ConsumeExpectedInboundBeforeReject env decoded snapshot_before timestamp_ns = inspect (\<lambda>s.
     let state = sc_state (ap_session s); seq_num = h_msg_seq_num (dm_header decoded)
     in if state \<noteq> kActive \<and> state \<noteq> kAwaitingLogout \<and> state \<noteq> kResendProcessing then ret ()
        else if seq_num \<noteq> snap_next_in_seq snapshot_before then ret ()
        else and_do (session_op (ObserveInboundSeq seq_num)) (
             and_do ConsumeResend (
             and_do (session_op (RecordInboundActivity timestamp_ns)) (PersistRecoveryState env))))"

definition BuildPhaseViolationLogout ::
    "'st Env \<Rightarrow> string \<Rightarrow> SessionSnapshot \<Rightarrow> string \<Rightarrow> u64 \<Rightarrow> ('st, ProtocolEvent) protocol" where
  "BuildPhaseViolationLogout env reason_text snapshot_before msg_type timestamp_ns = inspect (\<lambda>s.
     let phase_event = push_error reason_text ProtocolEvent_new
     in if \<not> cfg_is_initiator (ac_session (ap_config s)) \<and> snap_state snapshot_before = kConnected \<and> msg_type \<noteq> ''A''
        then ret (phase_event\<lparr> ev_disconnect := True \<rparr>)
        else bind (Admin_BeginLogout env reason_text timestamp_ns) (\<lambda>logout.
               ret ((push_frame logout phase_event)\<lparr> ev_disconnect := True \<rparr>)))"

definition logout_event :: "'st Env \<Rightarrow> string \<Rightarrow> u64 \<Rightarrow> ProtocolEvent \<Rightarrow> ('st, ProtocolEvent) protocol" where
  "logout_event env reason_text timestamp_ns event =
     bind (Admin_BeginLogout env reason_text timestamp_ns) (\<lambda>logout.
       ret ((push_frame logout event)\<lparr> ev_disconnect := True \<rparr>))"

definition CommitInboundPersistence :: "'st Env \<Rightarrow> DecodedMessageView \<Rightarrow> u64 \<Rightarrow> ('st, unit) protocol" where
  "CommitInboundPersistence env decoded timestamp_ns =
     and_do (session_op (RecordInboundActivity timestamp_ns)) (inspect (\<lambda>s.
       if ap_store s \<noteq> None then
         (let inbound_flags = 0;
              inbound_flags = (if IsAdminMessage (h_msg_type (dm_header decoded)) then inbound_flags OR kAdmin else inbound_flags);
              inbound_flags = (if h_poss_dup (dm_header decoded) then inbound_flags OR kPossDup else inbound_flags)
          in store_op (en_SaveInboundViewAndRecoveryState env
               \<lparr> mv_session_id = cfg_session_id (sc_config (ap_session s)),
                 mv_seq_num = h_msg_seq_num (dm_header decoded), mv_timestamp_ns = timestamp_ns,
                 mv_flags = inbound_flags, mv_payload = dm_raw decoded, mv_body_start_offset = 0 \<rparr>
               (recovery_state (Snapshot (ap_session s)))))
       else PersistRecoveryState env))"

section \<open>Inbound messages\<close>

definition ProcessInboundLogon :: "'st Env \<Rightarrow> DecodedMessageView \<Rightarrow> u64 \<Rightarrow> ('st, ProtocolEvent) protocol" where
  "ProcessInboundLogon env decoded timestamp_ns =
     (let view = dm_view decoded;
          inbound_next_expected = get_int (en_from_chars env) view kNextExpectedMsgSeqNum;
          inbound_reset = HasBoolean env view kResetSeqNumFlag
      in and_do (inspect (\<lambda>s.
           if inbound_reset then
             (let next_out = (if cfg_is_initiator (ac_session (ap_config s))
                              then snap_next_out_seq (Snapshot (ap_session s)) else 1)
              in ResetSessionState env (h_msg_seq_num (dm_header decoded) + 1) next_out False)
           else ret ())) (inspect (\<lambda>s.
         let pre_logon_next_out = snap_next_out_seq (Snapshot (ap_session s)); config = ap_config s
         in if (case inbound_next_expected of None \<Rightarrow> False | Some v \<Rightarrow> sint v \<le> 0)
            then logout_event env ''received invalid NextExpectedMsgSeqNum on Logon'' timestamp_ns ProtocolEvent_new
            else if (case inbound_next_expected of None \<Rightarrow> False | Some v \<Rightarrow> v > ucast pre_logon_next_out)
            then logout_event env ''counterparty requested unsent outbound sequence range'' timestamp_ns ProtocolEvent_new
            else
              bind (if \<not> cfg_is_initiator (ac_session config)
                    then bind (BuildLogonFrame env timestamp_ns (ac_reset_seq_num_on_logon config \<or> inbound_reset))
                           (\<lambda>response. ret (push_frame response ProtocolEvent_new))
                    else ret ProtocolEvent_new) (\<lambda>event.
              and_do (session_op OnLogonAccepted) (
              and_do (PersistRecoveryState env)
                (let event = event\<lparr> ev_session_active := True \<rparr>
                 in case inbound_next_expected of
                      None \<Rightarrow> ret event
                    | Some v \<Rightarrow>
                        ReplayCounterpartyExpectedRange env (ucast v) pre_logon_next_out timestamp_ns event))))))"

definition build_business_reject ::
    "'st Env \<Rightarrow> DecodedMessageView \<Rightarrow> u64 \<Rightarrow> u32 \<Rightarrow> string \<Rightarrow> ('st, ProtocolEvent) protocol" where
  "build_business_reject env decoded timestamp_ns business_reject_reason reason_text =
     (let builder = BuildAdminMessage ''j'';
          builder = set_int kRefSeqNum (ucast (h_msg_seq_num (dm_header decoded))) builder;
          builder = set_string kRefMsgType (view_msg_type (dm_view decoded)) builder;
          builder = set_int kBusinessRejectReasonTag (ucast business_reject_reason) builder;
          builder = (if reason_text \<noteq> [] then set_string kText reason_text builder else builder)
      in bind (encode_admin env builder timestamp_ns) (\<lambda>frame.
        ret (if business_reject_reason = kBusinessRejectUnsupportedMessageType \<or>
                business_reject_reason = kBusinessRejectApplicationNotAvailable
             then push_warning reason_text (push_frame frame ProtocolEvent_new)
             else push_error reason_text (push_frame frame ProtocolEvent_new))))"

definition ProcessInboundApplication :: "'st Env \<Rightarrow> DecodedMessageView \<Rightarrow> u64 \<Rightarrow> ('st, ProtocolEvent) protocol" where
  "ProcessInboundApplication env decoded timestamp_ns = inspect (\<lambda>s.
     let state = sc_state (ap_session s)
     in if state \<noteq> kActive \<and> state \<noteq> kAwaitingLogout \<and> state \<noteq> kResendProcessing
        then fail (InvalidArgument ''application message received before session activation'')
        else case ResolveApplicationBusinessRejectReason env (ap_config s) decoded of
          Some reason \<Rightarrow>
            build_business_reject env decoded timestamp_ns reason
              (if reason = kBusinessRejectApplicationNotAvailable
               then ''application handling is not available for this session''
               else ''application message type is not supported for this session'')
        | None \<Rightarrow>
            (case ValidateApplicationMessage env (ap_config s) decoded of
               None \<Rightarrow> no_result
             | Some (Some r) \<Rightarrow> reject_with env decoded timestamp_ns (r\<lparr> rj_disconnect := False \<rparr>)
             | Some None \<Rightarrow>
                 ret ((push_message (Borrow (dm_message decoded)) ProtocolEvent_new)
                   \<lparr> ev_poss_resend := HasBoolean env (dm_view decoded) kPossResend \<rparr>)))"

definition HandleInboundDecodeFailure :: "'st Env \<Rightarrow> Status \<Rightarrow> u64 \<Rightarrow> ('st, ProtocolEvent) protocol" where
  "HandleInboundDecodeFailure env decode_status timestamp_ns =
     (if \<not> ShouldIgnoreInboundDecodeFailure decode_status then fail decode_status
      else and_do EnsureInitialized (
           and_do (session_op (RecordInboundActivity timestamp_ns)) (
           and_do (PersistRecoveryState env)
             (ret (push_warning
                (case decode_status of
                   FormatError [] \<Rightarrow> ''malformed inbound frame ignored''
                 | FormatError m \<Rightarrow> m
                 | _ \<Rightarrow> []) ProtocolEvent_new)))))"

text \<open>A message from the wrong counterparty, or with times that do not add up.\<close>

definition lexicographically_less :: "string \<Rightarrow> string \<Rightarrow> bool" where
  "lexicographically_less a b \<longleftrightarrow> ord_class.lexordp (bytes_of a) (bytes_of b)"

definition reject_comp_ids ::
    "'st Env \<Rightarrow> DecodedMessageView \<Rightarrow> SessionSnapshot \<Rightarrow> u64 \<Rightarrow> Rejection \<Rightarrow> ('st, ProtocolEvent) protocol" where
  "reject_comp_ids env decoded snapshot_before timestamp_ns r =
     and_do (ConsumeExpectedInboundBeforeReject env decoded snapshot_before timestamp_ns)
       (if rj_disconnect r \<and> rj_reject_reason r = kSessionRejectCompIdProblem then
          (let seq_num = h_msg_seq_num (dm_header decoded)
           in and_do
             (if snap_state snapshot_before = kConnected \<and> view_msg_type (dm_view decoded) = ''A'' \<and>
                 seq_num = snap_next_in_seq snapshot_before
              then and_do (session_op (ObserveInboundSeq seq_num)) (
                   and_do (session_op (RecordInboundActivity timestamp_ns)) (PersistRecoveryState env))
              else ret ())
             (reject_then_logout env decoded (rj_ref_tag_id r) (rj_reject_reason r) (rj_text r) timestamp_ns))
        else reject_with env decoded timestamp_ns r)"

definition too_low_text :: "SessionSnapshot \<Rightarrow> DecodedMessageView \<Rightarrow> string" where
  "too_low_text snapshot_before decoded =
     ''MsgSeqNum too low, expecting '' @ to_string (unat (snap_next_in_seq snapshot_before)) @
     '' but received '' @ to_string (unat (h_msg_seq_num (dm_header decoded)))"

definition backwards_text :: string where
  "backwards_text = ''SequenceReset NewSeqNo must not move inbound sequence backwards''"

text \<open>Moving the expected number forward on a \<^verbatim>\<open>SequenceReset\<close>.\<close>

definition advance_inbound :: "SessionSnapshot \<Rightarrow> u32 \<Rightarrow> ('st, unit) protocol" where
  "advance_inbound snapshot_before new_seq_num =
     (if new_seq_num > snap_next_in_seq snapshot_before
      then and_do (session_op (AdvanceInboundExpectedSeq new_seq_num)) ConsumeResend else ret ())"

definition stale_sequence_reset ::
    "'st Env \<Rightarrow> DecodedMessageView \<Rightarrow> SessionSnapshot \<Rightarrow> u64 \<Rightarrow> ('st, ProtocolEvent) protocol" where
  "stale_sequence_reset env decoded snapshot_before timestamp_ns =
     (case ParseSequenceResetNewSeq env (dm_view decoded) of
        Inl (reject_reason, reject_text) \<Rightarrow>
          RejectInbound env decoded kNewSeqNo reject_reason reject_text timestamp_ns False
      | Inr new_seq_num \<Rightarrow>
          if HasBoolean env (dm_view decoded) kGapFillFlag \<and> \<not> h_poss_dup (dm_header decoded) then
            logout_event env (too_low_text snapshot_before decoded) timestamp_ns
              (push_error (too_low_text snapshot_before decoded) ProtocolEvent_new)
          else if new_seq_num < snap_next_in_seq snapshot_before then
            RejectInbound env decoded kNewSeqNo kSessionRejectValueIncorrect backwards_text timestamp_ns False
          else and_do (advance_inbound snapshot_before new_seq_num) (
               and_do (CommitInboundPersistence env decoded timestamp_ns) (ret ProtocolEvent_new)))"

definition stale_inbound ::
    "'st Env \<Rightarrow> DecodedMessageView \<Rightarrow> SessionSnapshot \<Rightarrow> u64 \<Rightarrow> ('st, ProtocolEvent) protocol" where
  "stale_inbound env decoded snapshot_before timestamp_ns =
     (if view_msg_type (dm_view decoded) = ''4'' then stale_sequence_reset env decoded snapshot_before timestamp_ns
      else inspect (\<lambda>s.
        if h_poss_dup (dm_header decoded) \<or> \<not> vp_reject_on_stale_msg_seq_num (ac_validation_policy (ap_config s)) then
          and_do (CommitInboundPersistence env decoded timestamp_ns) (ret ProtocolEvent_new)
        else
          logout_event env ''received stale inbound FIX sequence number'' timestamp_ns
            (push_error ''received stale inbound FIX sequence number'' ProtocolEvent_new)))"

definition validate_admin ::
    "'st Env \<Rightarrow> DecodedMessageView \<Rightarrow> u64 \<Rightarrow> ('st, ProtocolEvent) protocol \<Rightarrow> ('st, ProtocolEvent) protocol" where
  "validate_admin env decoded timestamp_ns accepted = inspect (\<lambda>s.
     case ValidateAdministrativeMessage env (ap_config s) decoded of
       None \<Rightarrow> no_result
     | Some (Some r) \<Rightarrow> reject_with env decoded timestamp_ns r
     | Some None \<Rightarrow> accepted)"

definition inbound_sequence_reset ::
    "'st Env \<Rightarrow> DecodedMessageView \<Rightarrow> SessionSnapshot \<Rightarrow> string option \<Rightarrow> u64 \<Rightarrow> ('st, ProtocolEvent) protocol" where
  "inbound_sequence_reset env decoded snapshot_before phase_violation_text timestamp_ns =
     (case ParseSequenceResetNewSeq env (dm_view decoded) of
        Inl (reject_reason, reject_text) \<Rightarrow>
          RejectInbound env decoded kNewSeqNo reject_reason reject_text timestamp_ns False
      | Inr new_seq_num \<Rightarrow>
          if new_seq_num < snap_next_in_seq snapshot_before then
            RejectInbound env decoded kNewSeqNo kSessionRejectValueIncorrect backwards_text timestamp_ns False
          else and_do (advance_inbound snapshot_before new_seq_num) (
               and_do (CommitInboundPersistence env decoded timestamp_ns)
                 (let event = (if new_seq_num = snap_next_in_seq snapshot_before
                               then push_warning ''SequenceReset NewSeqNo equals expected inbound sequence'' ProtocolEvent_new
                               else ProtocolEvent_new)
                  in case phase_violation_text of
                       Some violation \<Rightarrow>
                         BuildPhaseViolationLogout env violation snapshot_before (view_msg_type (dm_view decoded)) timestamp_ns
                     | None \<Rightarrow> validate_admin env decoded timestamp_ns (ret event))))"

text \<open>A number past the expected one: ask for the missing messages and keep this one for later.\<close>

definition inbound_gap ::
    "'st Env \<Rightarrow> DecodedMessageView \<Rightarrow> SessionSnapshot \<Rightarrow> string option \<Rightarrow> u64 \<Rightarrow> Status \<Rightarrow> ('st, ProtocolEvent) protocol" where
  "inbound_gap env decoded snapshot_before phase_violation_text timestamp_ns status = inspect (\<lambda>s.
     let ahead = (h_msg_seq_num (dm_header decoded) > snap_next_in_seq snapshot_before)
     in case (if ahead then phase_violation_text else None) of
          Some violation \<Rightarrow>
            and_do (session_op (RecordInboundActivity timestamp_ns))
              (BuildPhaseViolationLogout env violation snapshot_before (view_msg_type (dm_view decoded)) timestamp_ns)
        | None \<Rightarrow>
            (case (if ahead then sc_pending_resend (ap_session s) else None) of
               Some pending \<Rightarrow>
                 and_do (session_op (RecordInboundActivity timestamp_ns)) (
                 bind (BuildResendRequestFrame env (rr_begin_seq pending) (rr_end_seq pending) timestamp_ns) (\<lambda>resend.
                 and_do (update (\<lambda>s. s\<lparr> ap_deferred_gap_frames := ap_deferred_gap_frames s @ [dm_raw decoded] \<rparr>))
                   (ret (push_frame resend ProtocolEvent_new))))
             | None \<Rightarrow> fail status))"

definition gap_fill_received :: "'st Env \<Rightarrow> DecodedMessageView \<Rightarrow> u64 \<Rightarrow> ('st, ProtocolEvent) protocol" where
  "gap_fill_received env decoded timestamp_ns =
     (case ParseSequenceResetNewSeq env (dm_view decoded) of
        Inl (reject_reason, reject_text) \<Rightarrow>
          RejectInbound env decoded kNewSeqNo reject_reason reject_text timestamp_ns False
      | Inr new_seq_num \<Rightarrow> inspect (\<lambda>s.
          if new_seq_num < snap_next_in_seq (Snapshot (ap_session s)) then
            RejectInbound env decoded kNewSeqNo kSessionRejectValueIncorrect backwards_text timestamp_ns False
          else and_do (session_op (AdvanceInboundExpectedSeq new_seq_num)) (
               and_do (PersistRecoveryState env) (ret ProtocolEvent_new))))"

definition heartbeat_received :: "'st Env \<Rightarrow> DecodedMessageView \<Rightarrow> ('st, ProtocolEvent) protocol" where
  "heartbeat_received env decoded =
     (let test_request_id = GetStringView env (dm_view decoded) kTestReqID
      in and_do (update (\<lambda>s.
           if test_request_id \<noteq> [] \<and> test_request_id = ap_outstanding_test_request_id s
           then s\<lparr> ap_outstanding_test_request_id := [], ap_test_request_sent_ns := 0 \<rparr> else s))
         (ret ProtocolEvent_new))"

definition resend_request_received :: "'st Env \<Rightarrow> DecodedMessageView \<Rightarrow> u64 \<Rightarrow> ('st, ProtocolEvent) protocol" where
  "resend_request_received env decoded timestamp_ns =
     (let begin_value = GetInt env (dm_view decoded) kBeginSeqNo 1; end_value = GetInt env (dm_view decoded) kEndSeqNo 0;
          begin_seq = (if sint begin_value \<ge> 1 then ucast begin_value else 1);
          end_seq = (if sint end_value \<ge> 0 then ucast end_value else 0)
      in bind (ReplayOutbound env begin_seq end_seq timestamp_ns) (\<lambda>replayed.
           ret (ProtocolEvent_new\<lparr> ev_outbound_frames := replayed \<rparr>)))"

definition logout_received :: "'st Env \<Rightarrow> u64 \<Rightarrow> ('st, ProtocolEvent) protocol" where
  "logout_received env timestamp_ns = inspect (\<lambda>s.
     if sc_state (ap_session s) \<noteq> kAwaitingLogout then logout_event env [] timestamp_ns ProtocolEvent_new
     else ret (ProtocolEvent_new\<lparr> ev_disconnect := True \<rparr>))"

text \<open>The dispatch on the message type, once the number is consumed and the message validated.\<close>

definition dispatch_inbound :: "'st Env \<Rightarrow> DecodedMessageView \<Rightarrow> u64 \<Rightarrow> ('st, ProtocolEvent) protocol" where
  "dispatch_inbound env decoded timestamp_ns =
     (let msg_type = view_msg_type (dm_view decoded)
      in if msg_type = ''A'' then ProcessInboundLogon env decoded timestamp_ns
         else if msg_type = ''0'' then heartbeat_received env decoded
         else if msg_type = ''1'' then
           bind (BuildHeartbeatFrame env timestamp_ns (GetStringView env (dm_view decoded) kTestReqID)) (\<lambda>response.
             ret (push_frame response ProtocolEvent_new))
         else if msg_type = ''2'' then resend_request_received env decoded timestamp_ns
         else if msg_type = ''4'' then gap_fill_received env decoded timestamp_ns
         else if msg_type = ''5'' then logout_received env timestamp_ns
         else if msg_type = ''3'' then
           ret ((push_message (Borrow (dm_message decoded)) ProtocolEvent_new)\<lparr> ev_session_reject := True \<rparr>)
         else ProcessInboundApplication env decoded timestamp_ns)"

text \<open>A message whose header is accepted: phase, sequence number, contents.\<close>

definition observe_inbound ::
    "'st Env \<Rightarrow> DecodedMessageView \<Rightarrow> SessionSnapshot \<Rightarrow> string option \<Rightarrow> u64 \<Rightarrow> ('st, ProtocolEvent) protocol" where
  "observe_inbound env decoded snapshot_before phase_violation_text timestamp_ns = inspect (\<lambda>s.
     case ObserveInboundSeq (h_msg_seq_num (dm_header decoded)) (ap_session s) of
       (status, session) \<Rightarrow>
         and_do (update (\<lambda>s. s\<lparr> ap_session := session \<rparr>)) (
         and_do ConsumeResend
           (if \<not> status_ok status
            then inbound_gap env decoded snapshot_before phase_violation_text timestamp_ns status
            else and_do (CommitInboundPersistence env decoded timestamp_ns)
              (case phase_violation_text of
                 Some violation \<Rightarrow>
                   BuildPhaseViolationLogout env violation snapshot_before (view_msg_type (dm_view decoded)) timestamp_ns
               | None \<Rightarrow> validate_admin env decoded timestamp_ns (dispatch_inbound env decoded timestamp_ns)))))"

definition sequence_inbound ::
    "'st Env \<Rightarrow> DecodedMessageView \<Rightarrow> SessionSnapshot \<Rightarrow> u64 \<Rightarrow> ('st, ProtocolEvent) protocol" where
  "sequence_inbound env decoded snapshot_before timestamp_ns = inspect (\<lambda>s.
     let msg_type = view_msg_type (dm_view decoded);
         inbound_gap_fill = (msg_type = ''4'' \<and> HasBoolean env (dm_view decoded) kGapFillFlag);
         phase_violation_text = AdminPhaseViolationText (snap_state snapshot_before) msg_type
     in case phase_violation_text of
          Some violation \<Rightarrow>
            if \<not> cfg_is_initiator (ac_session (ap_config s)) \<and> snap_state snapshot_before = kConnected \<and> msg_type \<noteq> ''A''
            then and_do (session_op (RecordInboundActivity timestamp_ns)) (
                 and_do (PersistRecoveryState env)
                   (ret ((push_error violation ProtocolEvent_new)\<lparr> ev_disconnect := True \<rparr>)))
            else if h_msg_seq_num (dm_header decoded) < snap_next_in_seq snapshot_before
            then stale_inbound env decoded snapshot_before timestamp_ns
            else if msg_type = ''4'' \<and> \<not> inbound_gap_fill
            then inbound_sequence_reset env decoded snapshot_before (Some violation) timestamp_ns
            else observe_inbound env decoded snapshot_before (Some violation) timestamp_ns
        | None \<Rightarrow>
            if h_msg_seq_num (dm_header decoded) < snap_next_in_seq snapshot_before
            then stale_inbound env decoded snapshot_before timestamp_ns
            else if msg_type = ''4'' \<and> \<not> inbound_gap_fill
            then inbound_sequence_reset env decoded snapshot_before None timestamp_ns
            else observe_inbound env decoded snapshot_before None timestamp_ns)"

definition accept_inbound ::
    "'st Env \<Rightarrow> DecodedMessageView \<Rightarrow> SessionSnapshot \<Rightarrow> u64 \<Rightarrow> ('st, ProtocolEvent) protocol" where
  "accept_inbound env decoded snapshot_before timestamp_ns = inspect (\<lambda>s.
     let config = ap_config s; is_initiator = cfg_is_initiator (ac_session config);
         is_logon = (view_msg_type (dm_view decoded) = ''A'');
         inbound_logon_reset = (is_logon \<and> HasBoolean env (dm_view decoded) kResetSeqNumFlag);
         acceptor_config_logon_reset =
           (is_logon \<and> \<not> is_initiator \<and> ac_reset_seq_num_on_logon config \<and> \<not> inbound_logon_reset)
     in and_do (if is_logon \<and> ac_refresh_on_logon config then RefreshSessionStateFromStore env else ret ())
       (if inbound_logon_reset \<or> acceptor_config_logon_reset then
          and_do (ResetSessionState env 1 (if is_initiator then snap_next_out_seq snapshot_before else 1) (\<not> is_initiator))
            (inspect (\<lambda>s. sequence_inbound env decoded (Snapshot (ap_session s)) timestamp_ns))
        else sequence_inbound env decoded snapshot_before timestamp_ns))"

definition OnInbound_decoded :: "'st Env \<Rightarrow> DecodedMessageView \<Rightarrow> u64 \<Rightarrow> ('st, ProtocolEvent) protocol" where
  "OnInbound_decoded env decoded timestamp_ns =
     and_do EnsureInitialized (inspect (\<lambda>s.
       let config = ap_config s; snapshot_before = Snapshot (ap_session s); header = dm_header decoded;
           poss_dup_status = ValidatePossDup config decoded;
           consume = ConsumeExpectedInboundBeforeReject env decoded snapshot_before timestamp_ns
       in case ValidateCompIds config decoded of
            Some r \<Rightarrow> reject_comp_ids env decoded snapshot_before timestamp_ns r
          | None \<Rightarrow>
              if \<not> status_ok poss_dup_status then
                and_do consume (RejectInbound env decoded kOrigSendingTime kSessionRejectRequiredTagMissing
                  ''PossDupFlag requires OrigSendingTime'' timestamp_ns (h_msg_type header = ''A''))
              else if h_poss_dup header \<and> h_orig_sending_time header \<noteq> [] \<and> h_sending_time header \<noteq> [] \<and>
                      lexicographically_less (h_sending_time header) (h_orig_sending_time header) then
                and_do consume (RejectInbound env decoded kSendingTime kSessionRejectSendingTimeAccuracyProblem
                  ''OrigSendingTime must not be later than SendingTime'' timestamp_ns (h_msg_type header = ''A''))
              else if SendingTimeOutsideThreshold (bytes_of (h_sending_time header)) timestamp_ns
                        (ac_sending_time_threshold_seconds config) then
                and_do consume (reject_then_logout env decoded kSendingTime kSessionRejectSendingTimeAccuracyProblem
                  ''SendingTime is outside the configured tolerance'' timestamp_ns)
              else accept_inbound env decoded snapshot_before timestamp_ns))"

section \<open>Deferred messages\<close>

text \<open>The event takes over the message it refers to before the decoder's buffer is used again.\<close>

definition settle_event :: "ParsedMessageData \<Rightarrow> bytes \<Rightarrow> ProtocolEvent \<Rightarrow> ProtocolEvent" where
  "settle_event parsed raw event =
     (case ev_application_messages event of
        [message] \<Rightarrow>
          (if ref_valid message \<and> \<not> owns_storage message then AdoptParsedApplicationMessage parsed raw event else event)
      | _ \<Rightarrow> MaterializeApplicationMessages event)"

text \<open>
  What an inner event adds to the outer one: its frames, and its references as they are once the
  inner event is gone.
\<close>

definition merge_event :: "ProtocolEvent \<Rightarrow> ProtocolEvent \<Rightarrow> ProtocolEvent" where
  "merge_event event inner =
     event\<lparr> ev_outbound_frames := ev_outbound_frames event @ ev_outbound_frames inner,
            ev_application_messages := ev_application_messages event @ map release_ref (ev_application_messages inner) \<rparr>"

text \<open>The loop returns the event as it then is, the number of frames taken, and the status of a failure.\<close>

partial_function (option) drain_loop ::
    "'st Env \<Rightarrow> u64 \<Rightarrow> nat \<Rightarrow> ProtocolEvent \<Rightarrow> 'st AdminProtocol \<Rightarrow>
     ((ProtocolEvent \<times> nat \<times> unit outcome) \<times> 'st AdminProtocol) option" where
  "drain_loop env timestamp_ns index event s =
     (if index < length (ap_deferred_gap_frames s) \<and> sc_pending_resend (ap_session s) = None then
        (let frame = ap_deferred_gap_frames s ! index;
             s = s\<lparr> ap_deferred_gap_frames := (ap_deferred_gap_frames s)[index := []] \<rparr>
         in case en_DecodeFixMessageView env frame (vp_verify_checksum (ac_validation_policy (ap_config s))) of
              Inl _ \<Rightarrow> drain_loop env timestamp_ns (index + 1) event s
            | Inr decoded \<Rightarrow>
                if h_msg_seq_num (dm_header decoded) < snap_next_in_seq (Snapshot (ap_session s))
                then drain_loop env timestamp_ns (index + 1) event s
                else
                  (case OnInbound_decoded env decoded timestamp_ns s of
                     (Fails e, s') \<Rightarrow> Some ((event, index + 1, Fails e), s')
                   | (NoResult, s') \<Rightarrow> Some ((event, index + 1, NoResult), s')
                   | (Returns inner, s') \<Rightarrow>
                       (let event' = merge_event event (settle_event (dm_message decoded) frame inner)
                        in if ev_disconnect inner
                           then Some ((event'\<lparr> ev_disconnect := True \<rparr>, index + 1, Returns ()), s')
                           else drain_loop env timestamp_ns (index + 1) event' s')))
      else Some ((event, index, Returns ()), s))"

declare drain_loop.simps [code]

definition DrainDeferredGapFrames ::
    "'st Env \<Rightarrow> u64 \<Rightarrow> ProtocolEvent \<Rightarrow> 'st AdminProtocol \<Rightarrow> (ProtocolEvent \<times> unit outcome) \<times> 'st AdminProtocol" where
  "DrainDeferredGapFrames env timestamp_ns event s =
     (case drain_loop env timestamp_ns 0 event s of
        None \<Rightarrow> ((event, NoResult), s)
      | Some ((event', index, status), s') \<Rightarrow>
          ((event', status), s'\<lparr> ap_deferred_gap_frames := drop index (ap_deferred_gap_frames s') \<rparr>))"

definition OnInbound :: "'st Env \<Rightarrow> bytes \<Rightarrow> u64 \<Rightarrow> ('st, ProtocolEvent) protocol" where
  "OnInbound env frame timestamp_ns = inspect (\<lambda>s.
     case en_DecodeFixMessageView env frame (vp_verify_checksum (ac_validation_policy (ap_config s))) of
       Inl decode_status \<Rightarrow> HandleInboundDecodeFailure env decode_status timestamp_ns
     | Inr decoded \<Rightarrow>
         bind (OnInbound_decoded env decoded timestamp_ns) (\<lambda>event s.
           case DrainDeferredGapFrames env timestamp_ns (settle_event (dm_message decoded) (dm_raw decoded) event) s of
             ((event', Returns _), s') \<Rightarrow> (Returns (move_event event'), s')
           | ((event', Fails e), s') \<Rightarrow> (Fails e, s')
           | ((event', NoResult), s') \<Rightarrow> (NoResult, s')))"

definition OnInbound_vector :: "'st Env \<Rightarrow> bytes \<Rightarrow> u64 \<Rightarrow> ('st, ProtocolEvent) protocol" where
  "OnInbound_vector env frame timestamp_ns = inspect (\<lambda>s.
     case en_DecodeFixMessageView env frame (vp_verify_checksum (ac_validation_policy (ap_config s))) of
       Inl decode_status \<Rightarrow> HandleInboundDecodeFailure env decode_status timestamp_ns
     | Inr decoded \<Rightarrow>
         bind (OnInbound_decoded env decoded timestamp_ns) (\<lambda>event s.
           case DrainDeferredGapFrames env timestamp_ns (settle_event (dm_message decoded) frame event) s of
             ((event', Returns _), s') \<Rightarrow> (Returns (move_event event'), s')
           | ((event', Fails e), s') \<Rightarrow> (Returns (move_event event'), s')
           | ((event', NoResult), s') \<Rightarrow> (NoResult, s')))"

section \<open>Timers\<close>

definition interval_ns :: "AdminProtocolConfig \<Rightarrow> u64" where
  "interval_ns config = max 1 (ucast (ac_heartbeat_interval_seconds config)) * 1000000000"

definition timed_state :: "SessionState \<Rightarrow> bool" where
  "timed_state state \<longleftrightarrow>
     state = kActive \<or> state = kAwaitingLogout \<or> state = kResendProcessing \<or> state = kPendingLogon"

definition test_request_threshold_ns :: "AdminProtocolConfig \<Rightarrow> u64" where
  "test_request_threshold_ns config = interval_ns config + interval_ns config div 5"

definition OnTimer :: "'st Env \<Rightarrow> u64 \<Rightarrow> ('st, ProtocolEvent) protocol" where
  "OnTimer env timestamp_ns =
     and_do EnsureInitialized (inspect (\<lambda>s.
       let snapshot = Snapshot (ap_session s); interval = interval_ns (ap_config s); event = ProtocolEvent_new
       in if \<not> timed_state (snap_state snapshot) then ret event
          else if snap_state snapshot = kPendingLogon then
            ret (event\<lparr> ev_disconnect :=
              (snap_last_outbound_ns snapshot \<noteq> 0 \<and> timestamp_ns > snap_last_outbound_ns snapshot + interval * 2) \<rparr>)
          else if snap_state snapshot = kAwaitingLogout \<and> ap_logout_sent_ns s \<noteq> 0 \<and>
                  timestamp_ns > ap_logout_sent_ns s + interval then
            ret ((push_warning ''Logout acknowledgement timeout'' event)\<lparr> ev_disconnect := True \<rparr>)
          else if ap_outstanding_test_request_id s \<noteq> [] \<and> ap_test_request_sent_ns s \<noteq> 0 \<and>
                  timestamp_ns > ap_test_request_sent_ns s + interval then
            ret (event\<lparr> ev_disconnect := True \<rparr>)
          else if snap_last_inbound_ns snapshot \<noteq> 0 \<and>
                  timestamp_ns > snap_last_inbound_ns snapshot + test_request_threshold_ns (ap_config s) \<and>
                  ap_outstanding_test_request_id s = [] then
            and_do (update (\<lambda>s. s\<lparr> ap_outstanding_test_request_id := to_string (unat timestamp_ns),
                                  ap_test_request_sent_ns := timestamp_ns \<rparr>)) (
            bind (BuildTestRequestFrame env timestamp_ns (to_string (unat timestamp_ns))) (\<lambda>test_request.
              ret (push_frame test_request event)))
          else if snap_last_outbound_ns snapshot = 0 \<or> timestamp_ns > snap_last_outbound_ns snapshot + interval then
            bind (BuildHeartbeatFrame env timestamp_ns []) (\<lambda>heartbeat. ret (push_frame heartbeat event))
          else ret event))"

definition update_deadline :: "u64 \<Rightarrow> u64 option \<Rightarrow> u64 option" where
  "update_deadline candidate_ns deadline =
     (case deadline of
        None \<Rightarrow> Some candidate_ns
      | Some d \<Rightarrow> if candidate_ns < d then Some candidate_ns else Some d)"

definition not_before :: "u64 \<Rightarrow> u64 option \<Rightarrow> u64 option" where
  "not_before timestamp_ns deadline =
     (case deadline of None \<Rightarrow> None | Some d \<Rightarrow> if d < timestamp_ns then Some timestamp_ns else Some d)"

definition NextTimerDeadline :: "'st AdminProtocol \<Rightarrow> u64 \<Rightarrow> u64 option" where
  "NextTimerDeadline s timestamp_ns =
     (let snapshot = Snapshot (ap_session s); interval = interval_ns (ap_config s); deadline = None
      in if (case ap_initialization_error s of None \<Rightarrow> False | Some e \<Rightarrow> \<not> status_ok e) then None
         else if \<not> timed_state (snap_state snapshot) then None
         else if snap_state snapshot = kPendingLogon then
           not_before timestamp_ns
             (if snap_last_outbound_ns snapshot \<noteq> 0
              then update_deadline (snap_last_outbound_ns snapshot + interval * 2) deadline else deadline)
         else
           let deadline = (if snap_state snapshot = kAwaitingLogout \<and> ap_logout_sent_ns s \<noteq> 0
                           then update_deadline (ap_logout_sent_ns s + interval) deadline else deadline);
               deadline = (if ap_outstanding_test_request_id s \<noteq> [] \<and> ap_test_request_sent_ns s \<noteq> 0
                           then update_deadline (ap_test_request_sent_ns s + interval) deadline
                           else if snap_last_inbound_ns snapshot \<noteq> 0
                           then update_deadline (snap_last_inbound_ns snapshot + test_request_threshold_ns (ap_config s)) deadline
                           else deadline);
               deadline = (if snap_last_outbound_ns snapshot = 0 then update_deadline timestamp_ns deadline
                           else update_deadline (snap_last_outbound_ns snapshot + interval) deadline)
           in not_before timestamp_ns deadline)"

end
