(* ===== verification/Admin_Rules.thy ===== *)
theory Admin_Rules
  imports Admin_Inbound
begin

text \<open>
  How to reason about the operations of \<^verbatim>\<open>AdminProtocol\<close>. The locale \<open>framing_relation\<close> takes a relation
  between the states before and after that is closed under the elementary writes of framing and storing a
  message, and shows that every operation made of them stays within it; \<open>sending_relation\<close> adds the
  session states and the latches, \<open>protocol_relation\<close> the operations that move the inbound counter,
  \<open>inbound_relation\<close> the list of deferred frames, and \<open>logon_relation\<close> says that it
  admits every operation of the core.
\<close>

section \<open>Running an operation\<close>

lemma run_simps [simp]:
  "ret x s = (Returns x, s)" "fail e s = (Fails e, s)" "no_result s = (NoResult, s)"
  "update f s = (Returns (), f s)" "inspect g s = g s s"
  by (simp_all add: ret_def fail_def no_result_def update_def inspect_def)

lemma bind_cases:
  assumes "bind m f s = (r, s')"
  obtains (Returns) x s1 where "m s = (Returns x, s1)" "f x s1 = (r, s')"
  | (Fails) e where "m s = (Fails e, s')" "r = Fails e"
  | (NoResult) "m s = (NoResult, s')" "r = NoResult"
  using assms by (cases "m s"; cases "fst (m s)") (auto simp: bind_def)

lemma bind_Returns:
  assumes "bind m f s = (Returns y, s')"
  obtains x s1 where "m s = (Returns x, s1)" "f x s1 = (Returns y, s')"
  using assms by (rule bind_cases) auto

lemma bind_run: "m s = (Returns x, s1) \<Longrightarrow> bind m f s = f x s1"
  by (simp add: bind_def)

section \<open>Relations between the states before and after\<close>

definition keeps :: "('st AdminProtocol \<Rightarrow> 'st AdminProtocol \<Rightarrow> bool) \<Rightarrow> ('st, 'a) protocol \<Rightarrow> bool" where
  "keeps R m \<longleftrightarrow> (\<forall>s. R s (snd (m s)))"

lemma keepsD: "keeps R m \<Longrightarrow> m s = (r, s') \<Longrightarrow> R s s'"
  unfolding keeps_def by (metis snd_conv)

lemma keeps_case:
  "(c \<Longrightarrow> keeps R a) \<Longrightarrow> (\<not> c \<Longrightarrow> keeps R b) \<Longrightarrow> keeps R (if c then a else b)"
  "(x = None \<Longrightarrow> keeps R a) \<Longrightarrow> (\<And>y. x = Some y \<Longrightarrow> keeps R (f y)) \<Longrightarrow>
     keeps R (case x of None \<Rightarrow> a | Some y \<Rightarrow> f y)"
  "(\<And>y. z = Inl y \<Longrightarrow> keeps R (g y)) \<Longrightarrow> (\<And>y. z = Inr y \<Longrightarrow> keeps R (h y)) \<Longrightarrow>
     keeps R (case z of Inl y \<Rightarrow> g y | Inr y \<Rightarrow> h y)"
  "(\<And>y z. p = (y, z) \<Longrightarrow> keeps R (k y z)) \<Longrightarrow> keeps R (case p of (y, z) \<Rightarrow> k y z)"
  by (auto split: option.split sum.split prod.split)

lemma keeps_inspect: "(\<And>s. keeps R (f s)) \<Longrightarrow> keeps R (inspect f)"
  by (simp add: keeps_def)

text \<open>The operations of the session core that sending uses: none of them touches the inbound counter
  or makes the session active.\<close>

fun sending_op :: "CoreOp \<Rightarrow> bool" where
  "sending_op (OpRestoreSequenceState i n) = False"
| "sending_op (OpAdvanceInboundExpectedSeq n) = False"
| "sending_op (OpObserveInboundSeq n) = False"
| "sending_op (OpCheckDayCut t) = False"
| "sending_op OpTriggerDayCut = False"
| "sending_op OpOnLogonAccepted = False"
| "sending_op _ = True"

text \<open>The ones that framing a message uses.\<close>

fun framing_op :: "CoreOp \<Rightarrow> bool" where
  "framing_op OpAllocateOutboundSeq = True"
| "framing_op (OpRecordInboundActivity t) = True"
| "framing_op (OpRecordOutboundActivity t) = True"
| "framing_op _ = False"

locale framing_relation =
  fixes R :: "'st AdminProtocol \<Rightarrow> 'st AdminProtocol \<Rightarrow> bool"
  assumes refl: "R s s"
    and trans: "R s t \<Longrightarrow> R t u \<Longrightarrow> R s u"
    and framing: "framing_op operation \<Longrightarrow> R s (s\<lparr> ap_session := snd (core_step operation (ap_session s)) \<rparr>)"
    and store: "ap_store s = Some st \<Longrightarrow> R s (s\<lparr> ap_store := Some st' \<rparr>)"
begin

lemma keeps_basic: "keeps R (ret x)" "keeps R (fail e)" "keeps R no_result" "keeps R (check st)" "keeps R (from_result r)"
  by (auto simp: keeps_def refl check_def from_result_def split: sum.split)

lemma keeps_bind: "keeps R m \<Longrightarrow> (\<And>x. keeps R (f x)) \<Longrightarrow> keeps R (bind m f)"
  unfolding keeps_def bind_def
  by (auto split: prod.split outcome.split) (metis snd_conv trans)+

lemmas keeps_rules = keeps_basic keeps_case keeps_inspect keeps_bind

lemma keeps_activity: "keeps R (session_op (RecordInboundActivity ts))" "keeps R (session_op (RecordOutboundActivity ts))"
proof -
  have "keeps R (session_op f)" if "f = core_step operation" "framing_op operation" for f operation
    unfolding session_op_def that(1) by (intro keeps_rules) (simp add: keeps_def framing that(2))
  from this [of _ "OpRecordInboundActivity ts"] this [of _ "OpRecordOutboundActivity ts"]
  show "keeps R (session_op (RecordInboundActivity ts))" "keeps R (session_op (RecordOutboundActivity ts))"
    by (simp_all add: fun_eq_iff)
qed

lemma keeps_store_op: "keeps R (store_op f)"
  unfolding keeps_def store_op_def by (auto simp: refl store bind_def check_def split: option.split)

lemma keeps_AllocateSeq: "keeps R AllocateSeq"
  unfolding keeps_def AllocateSeq_def
proof
  fix s :: "'st AdminProtocol"
  have "R s (s\<lparr> ap_session := snd (AllocateOutboundSeq (ap_session s)) \<rparr>)"
    using framing [of OpAllocateOutboundSeq s] by simp
  then show "R s (snd (inspect (\<lambda>s. case AllocateOutboundSeq (ap_session s) of
      (r, session) \<Rightarrow> and_do (update (\<lambda>s. s\<lparr> ap_session := session \<rparr>)) (from_result r)) s))"
    by (auto simp: bind_def from_result_def split: prod.split sum.split)
qed

lemma keeps_store_calls: "keeps R EnsureInitialized" "keeps R (PersistRecoveryState env)"
  unfolding EnsureInitialized_def PersistRecoveryState_def
  by (intro keeps_rules keeps_store_op)+

lemma keeps_EncodeFrame:
  "keeps R (FinalizeEncodedFrame env t admin ts persist poss_dup fl q enc)"
  "keeps R (EncodeFrame env message admin ts persist poss_dup alloc fl q orig envelope)"
  "keeps R (EncodeFrame_encoded env m admin ts persist poss_dup alloc fl q orig envelope extras)"
  "keeps R (encode_admin env data ts)"
  unfolding encode_admin_def EncodeFrame_def EncodeFrame_encoded_def FinalizeEncodedFrame_def Let_def
  by (intro keeps_rules keeps_activity keeps_store_op keeps_store_calls keeps_AllocateSeq)+

lemmas keeps_leaves = keeps_activity keeps_store_op keeps_store_calls keeps_AllocateSeq keeps_EncodeFrame

lemma keeps_frames:
  "keeps R (BuildLogonFrame env ts reset)" "keeps R (BuildHeartbeatFrame env ts i)" "keeps R (BuildTestRequestFrame env ts i)"
  "keeps R (BuildResendRequestFrame env b e ts)" "keeps R (BuildGapFillFrame env b q ts)"
  "keeps R (BuildRejectFrame env q t g r x ts)"
  unfolding BuildLogonFrame_def BuildHeartbeatFrame_def BuildTestRequestFrame_def BuildResendRequestFrame_def
    BuildGapFillFrame_def BuildRejectFrame_def Let_def
  by (intro keeps_rules keeps_leaves)+

lemma keeps_sends:
  "keeps R (SendApplication env message ts envelope)" "keeps R (SendEncodedApplication env m ts envelope extras)"
  unfolding SendApplication_def SendEncodedApplication_def by (intro keeps_rules keeps_leaves)+

lemma replay_frames_R:
  assumes "replay_frames env ts opts rs e q i fs s = Some y"
  shows "R s (snd y)"
proof (rule replay_frames.raw_induct [where P = "\<lambda>_ _ _ _ _ _ _ _ s y. R s (snd y)", OF _ assms])
  fix rec env ts opts rs e q i fs s y
  assume IH: "\<And>env ts opts rs e q i fs s y. rec env ts opts rs e q i fs s = Some y \<Longrightarrow> R s (snd y)"
    and run: "(if q \<le> e then
        (if \<not> replayable rs i q then
           (case gap_scan rs e q i of
              None \<Rightarrow> None
            | Some (q', i') \<Rightarrow>
                (case BuildGapFillFrame env q q' ts s of
                   (Returns gap_fill, s') \<Rightarrow> rec env ts opts rs e q' i' (fs @ [gap_fill]) s'
                 | (Fails e, s') \<Rightarrow> Some (Fails e, s')
                 | (NoResult, s') \<Rightarrow> Some (NoResult, s')))
         else
           (case replay_record opts (rs ! i) of
              None \<Rightarrow> Some (NoResult, s)
            | Some (Inl e) \<Rightarrow> Some (Fails e, s)
            | Some (Inr frame) \<Rightarrow> rec env ts opts rs e (q + 1) (i + 1) (fs @ [frame]) s))
      else Some (Returns fs, s)) = Some y"
  have gap: "R s t" if "BuildGapFillFrame env q q' ts s = (x, t)" for q' x t
    using keepsD [OF keeps_frames(5) that] .
  have both: "R s (snd y)" if "BuildGapFillFrame env q q' ts s = (x, t)" and "rec env ts opts rs e q' i' fs' t = Some y"
    for q' x t i' fs' using gap [OF that(1)] IH [OF that(2)] by (rule trans)
  from run show "R s (snd y)"
    by (auto simp: refl split: if_splits option.splits prod.splits outcome.splits sum.splits intro: gap IH both)
qed

lemma keeps_replay:
  "keeps R (ReplayOutbound env b e ts)" "keeps R (ReplayCounterpartyExpectedRange env q n ts event)"
proof -
  have loop: "keeps R (inspect (\<lambda>s. ending (replay_frames env ts (replay_options env (ap_config s)) rs q b 0 [] s)))" for rs q b
    unfolding keeps_def ending_def
    by (auto simp: refl split: option.split dest: replay_frames_R)
  have 1: "keeps R (ReplayOutbound env b e ts)" for b e
    unfolding ReplayOutbound_def Let_def
    by (rule keeps_inspect) (intro keeps_basic keeps_case keeps_bind loop)
  show "keeps R (ReplayOutbound env b e ts)" by (rule 1)
  show "keeps R (ReplayCounterpartyExpectedRange env q n ts event)"
    unfolding ReplayCounterpartyExpectedRange_def by (intro keeps_rules 1)
qed

lemma keeps_commit: "keeps R (CommitInboundPersistence env decoded ts)"
  unfolding CommitInboundPersistence_def Let_def by (intro keeps_rules keeps_leaves)

lemmas framing_calls = keeps_leaves keeps_frames keeps_replay keeps_commit

end

locale sending_relation = framing_relation +
  assumes sending: "sending_op operation \<Longrightarrow> R s (s\<lparr> ap_session := snd (core_step operation (ap_session s)) \<rparr>)"
    and logout: "R s (s\<lparr> ap_logout_sent := True, ap_logout_sent_ns := ns \<rparr>)"
    and test_request: "R s (s\<lparr> ap_outstanding_test_request_id := i, ap_test_request_sent_ns := ns \<rparr>)"
begin

lemma keeps_core: "f = core_step operation \<Longrightarrow> sending_op operation \<Longrightarrow> keeps R (session_op f)"
  unfolding session_op_def by (intro keeps_rules) (simp add: keeps_def sending)

lemma keeps_session_op:
  "keeps R (session_op OnTransportConnected)" "keeps R (session_op BeginLogon)" "keeps R (session_op BeginLogout)"
  "keeps R (session_op OnTransportClosed)"
  using keeps_core [of _ OpOnTransportConnected] keeps_core [of _ OpBeginLogon] keeps_core [of _ OpBeginLogout]
    keeps_core [of _ OpOnTransportClosed]
  by (simp_all add: fun_eq_iff)

lemma keeps_ConsumeResend: "keeps R ConsumeResend"
  unfolding keeps_def ConsumeResend_def
proof
  fix s :: "'a AdminProtocol"
  let ?t = "s\<lparr> ap_session := snd (ConsumeResendCompleted (ap_session s)) \<rparr>"
  have t: "R s ?t" using sending [of OpConsumeResendCompleted s] by simp
  moreover have "R ?t (?t\<lparr> ap_outstanding_test_request_id := i \<rparr>)" for i
    using test_request [where s = ?t and i = i and ns = "ap_test_request_sent_ns s"] by simp
  ultimately have "R s (?t\<lparr> ap_outstanding_test_request_id := i \<rparr>)" for i by (rule trans)
  then show "R s (snd (inspect (\<lambda>s. case ConsumeResendCompleted (ap_session s) of
      (completed, session) \<Rightarrow> update (\<lambda>s. s\<lparr> ap_session := session,
        ap_outstanding_test_request_id := (if completed then [] else ap_outstanding_test_request_id s) \<rparr>)) s))"
    using t by (auto split: prod.split)
qed

lemma keeps_Admin_BeginLogout: "keeps R (Admin_BeginLogout env t ts)"
  unfolding Admin_BeginLogout_def Let_def
  by (intro keeps_rules framing_calls keeps_session_op) (simp add: keeps_def logout)

lemmas keeps_calls = framing_calls keeps_session_op keeps_ConsumeResend keeps_Admin_BeginLogout

lemma keeps_rejects:
  "keeps R (RejectInbound env decoded tag reason t ts d)" "keeps R (reject_with env decoded ts rj)"
  "keeps R (reject_then_logout env decoded tag reason t ts)"
  "keeps R (BuildPhaseViolationLogout env t snap mt ts)" "keeps R (logout_event env t ts event)"
  unfolding reject_then_logout_def reject_with_def RejectInbound_def
    BuildPhaseViolationLogout_def logout_event_def Let_def
  by (intro keeps_rules keeps_calls)+

lemma keeps_timer: "keeps R (OnTimer env ts)"
  unfolding OnTimer_def Let_def
  by (intro keeps_rules keeps_calls) (simp add: keeps_def test_request)

lemma keeps_heartbeat: "keeps R (heartbeat_received env decoded)"
proof -
  have "R s (s\<lparr> ap_outstanding_test_request_id := [], ap_test_request_sent_ns := 0 \<rparr>)" for s by (rule test_request)
  then show ?thesis
    unfolding heartbeat_received_def Let_def by (intro keeps_rules) (auto simp: keeps_def refl)
qed

lemma keeps_replies:
  "keeps R (build_business_reject env decoded ts reason t)" "keeps R (HandleInboundDecodeFailure env st ts)"
  "keeps R (resend_request_received env decoded ts)" "keeps R (logout_received env ts)"
  unfolding build_business_reject_def HandleInboundDecodeFailure_def resend_request_received_def logout_received_def Let_def
  by (intro keeps_rules keeps_calls keeps_rejects)+

lemma keeps_application: "keeps R (ProcessInboundApplication env decoded ts)"
  unfolding ProcessInboundApplication_def Let_def
  by (intro keeps_rules keeps_replies keeps_rejects)

lemma keeps_validate_admin: "keeps R m \<Longrightarrow> keeps R (validate_admin env decoded ts m)"
  unfolding validate_admin_def by (intro keeps_rules keeps_rejects)

lemma keeps_update_then: "R s (f s) \<Longrightarrow> keeps R m \<Longrightarrow> R s (snd (and_do (update f) m s))"
  unfolding keeps_def bind_def by (auto intro: trans)

end

text \<open>
  The remaining operations of the core that the protocol calls are allowed or not, depending on the relation:
  a message observes its own number, may advance the expected number, and restores the counters or
  activates the session only when it is a Logon.
\<close>

definition dispatchable :: "(CoreOp \<Rightarrow> bool) \<Rightarrow> DecodedMessageView \<Rightarrow> bool" where
  "dispatchable allowed decoded \<longleftrightarrow>
     allowed (OpObserveInboundSeq (h_msg_seq_num (dm_header decoded))) \<and> (\<forall>n. allowed (OpAdvanceInboundExpectedSeq n)) \<and>
     (view_msg_type (dm_view decoded) = ''A'' \<longrightarrow>
        allowed OpOnLogonAccepted \<and> (\<forall>i n. allowed (OpRestoreSequenceState i n)))"

definition all_dispatchable :: "(CoreOp \<Rightarrow> bool) \<Rightarrow> 'st Env \<Rightarrow> bool" where
  "all_dispatchable allowed env \<longleftrightarrow>
     (\<forall>frame verify decoded. en_DecodeFixMessageView env frame verify = Inr decoded \<longrightarrow> dispatchable allowed decoded)"

locale protocol_relation = sending_relation +
  fixes allowed :: "CoreOp \<Rightarrow> bool"
  assumes session: "allowed operation \<Longrightarrow> R s (s\<lparr> ap_session := snd (core_step operation (ap_session s)) \<rparr>)"
begin

lemma keeps_allowed: "allowed operation \<Longrightarrow> f = core_step operation \<Longrightarrow> keeps R (session_op f)"
  unfolding session_op_def by (intro keeps_rules) (simp add: keeps_def session)

lemma keeps_inbound_op:
  "allowed (OpRestoreSequenceState i n) \<Longrightarrow> keeps R (session_op (RestoreSequenceState i n))"
  "allowed (OpAdvanceInboundExpectedSeq q) \<Longrightarrow> keeps R (session_op (AdvanceInboundExpectedSeq q))"
  "allowed (OpObserveInboundSeq q) \<Longrightarrow> keeps R (session_op (ObserveInboundSeq q))"
  "allowed OpOnLogonAccepted \<Longrightarrow> keeps R (session_op OnLogonAccepted)"
  by (erule keeps_allowed; simp add: fun_eq_iff)+

lemma keeps_restores:
  assumes "\<And>i n. allowed (OpRestoreSequenceState i n)"
  shows "keeps R (RefreshSessionStateFromStore env)" "keeps R (ResetSessionState env i n b)"
    "keeps R (Admin_OnTransportConnected env ts)"
proof -
  show 1: "keeps R (RefreshSessionStateFromStore env)" and 2: "keeps R (ResetSessionState env i n b)" for i n b
    unfolding RefreshSessionStateFromStore_def ResetSessionState_def
    by (intro keeps_rules keeps_calls keeps_inbound_op assms)+
  show "keeps R (Admin_OnTransportConnected env ts)"
    unfolding Admin_OnTransportConnected_def by (intro keeps_rules keeps_calls 1 2)
qed

lemma keeps_processing:
  assumes "dispatchable allowed decoded"
  shows "keeps R (ConsumeExpectedInboundBeforeReject env decoded snap ts)"
    "keeps R (reject_comp_ids env decoded snap ts rj)"
    "keeps R (advance_inbound snap n)" "keeps R (stale_sequence_reset env decoded snap ts)"
    "keeps R (stale_inbound env decoded snap ts)" "keeps R (gap_fill_received env decoded ts)"
    "keeps R (inbound_sequence_reset env decoded snap phase ts)"
  using assms
  unfolding reject_comp_ids_def stale_inbound_def stale_sequence_reset_def inbound_sequence_reset_def advance_inbound_def
    gap_fill_received_def ConsumeExpectedInboundBeforeReject_def dispatchable_def Let_def
  by (intro keeps_rules keeps_calls keeps_rejects keeps_inbound_op keeps_validate_admin; simp)+

lemma keeps_dispatch:
  assumes "dispatchable allowed decoded"
  shows "keeps R (dispatch_inbound env decoded ts)"
proof -
  have "keeps R (ProcessInboundLogon env decoded ts)" if "view_msg_type (dm_view decoded) = ''A''"
    using that assms unfolding ProcessInboundLogon_def dispatchable_def Let_def
    by (intro keeps_rules keeps_calls keeps_rejects keeps_restores keeps_inbound_op) simp_all
  then show ?thesis
    unfolding dispatch_inbound_def Let_def
    by (intro keeps_rules keeps_calls keeps_replies keeps_processing keeps_heartbeat keeps_application assms)
qed

lemma R_observe:
  "dispatchable allowed decoded \<Longrightarrow> ObserveInboundSeq (h_msg_seq_num (dm_header decoded)) (ap_session s) = (status, core) \<Longrightarrow>
     R s (s\<lparr> ap_session := core \<rparr>)"
  using session [of "OpObserveInboundSeq (h_msg_seq_num (dm_header decoded))" s] by (simp add: dispatchable_def)

end

text \<open>The steps of the loop over the deferred frames.\<close>

abbreviation taken :: "nat \<Rightarrow> 'st AdminProtocol \<Rightarrow> 'st AdminProtocol" where
  "taken i s \<equiv> s\<lparr> ap_deferred_gap_frames := (ap_deferred_gap_frames s)[i := []] \<rparr>"

definition drained_by ::
    "'st Env \<Rightarrow> u64 \<Rightarrow> nat \<Rightarrow> 'st AdminProtocol \<Rightarrow> DecodedMessageView \<Rightarrow> ProtocolEvent outcome \<Rightarrow> 'st AdminProtocol \<Rightarrow> bool" where
  "drained_by env ts i s decoded r t \<longleftrightarrow>
     i < length (ap_deferred_gap_frames s) \<and> sc_pending_resend (ap_session s) = None \<and>
     en_DecodeFixMessageView env (ap_deferred_gap_frames s ! i)
       (vp_verify_checksum (ac_validation_policy (ap_config s))) = Inr decoded \<and>
     \<not> h_msg_seq_num (dm_header decoded) < sc_next_in_seq (ap_session s) \<and>
     OnInbound_decoded env decoded ts (taken i s) = (r, t)"

lemma drain_induct:
  assumes "drain_loop env ts i event s = Some y"
    and stop: "\<And>i event s. P i event s ((event, i, Returns ()), s)"
    and skip: "\<And>i event s y. P (Suc i) event (taken i s) y \<Longrightarrow> P i event s y"
    and error: "\<And>i event s decoded r t. drained_by env ts i s decoded (Fails r) t \<Longrightarrow> P i event s ((event, Suc i, Fails r), t)"
    and lost: "\<And>i event s decoded t. drained_by env ts i s decoded NoResult t \<Longrightarrow> P i event s ((event, Suc i, NoResult), t)"
    and last: "\<And>i event s decoded inner t. drained_by env ts i s decoded (Returns inner) t \<Longrightarrow> ev_disconnect inner \<Longrightarrow>
      P i event s ((merge_event event (settle_event (dm_message decoded) (ap_deferred_gap_frames s ! i) inner)
        \<lparr> ev_disconnect := True \<rparr>, Suc i, Returns ()), t)"
    and more: "\<And>i event s decoded inner t y. drained_by env ts i s decoded (Returns inner) t \<Longrightarrow> \<not> ev_disconnect inner \<Longrightarrow>
      P (Suc i) (merge_event event (settle_event (dm_message decoded) (ap_deferred_gap_frames s ! i) inner)) t y \<Longrightarrow>
      P i event s y"
  shows "P i event s y"
proof -
  have "env' = env \<and> ts' = ts \<longrightarrow> P i event s y" if "drain_loop env' ts' i event s = Some y" for env' ts' i event s y
  proof (rule drain_loop.raw_induct
      [where P = "\<lambda>env' ts' i event s y. env' = env \<and> ts' = ts \<longrightarrow> P i event s y", OF _ that], intro impI)
    fix rec env' ts' i event s y
    assume IH: "\<And>env' ts' i event s y. rec env' ts' i event s = Some y \<Longrightarrow> env' = env \<and> ts' = ts \<longrightarrow> P i event s y"
      and run: "(if i < length (ap_deferred_gap_frames s) \<and> sc_pending_resend (ap_session s) = None then
          (let frame = ap_deferred_gap_frames s ! i; s = taken i s
           in case en_DecodeFixMessageView env' frame (vp_verify_checksum (ac_validation_policy (ap_config s))) of
                Inl _ \<Rightarrow> rec env' ts' (i + 1) event s
              | Inr decoded \<Rightarrow>
                  if h_msg_seq_num (dm_header decoded) < snap_next_in_seq (Snapshot (ap_session s))
                  then rec env' ts' (i + 1) event s
                  else
                    (case OnInbound_decoded env' decoded ts' s of
                       (Returns inner, s') \<Rightarrow>
                         (let event' = merge_event event (settle_event (dm_message decoded) frame inner)
                          in if ev_disconnect inner
                             then Some ((event'\<lparr> ev_disconnect := True \<rparr>, i + 1, Returns ()), s')
                             else rec env' ts' (i + 1) event' s')
                     | (Fails e, s') \<Rightarrow> Some ((event, i + 1, Fails e), s')
                     | (NoResult, s') \<Rightarrow> Some ((event, i + 1, NoResult), s')))
        else Some ((event, i, Returns ()), s)) = Some y"
      and e: "env' = env \<and> ts' = ts"
    have n: "snap_next_in_seq (Snapshot c) = sc_next_in_seq c" for c by (simp add: Snapshot_def)
    show "P i event s y"
      using run unfolding e [THEN conjunct1] e [THEN conjunct2]
      by (auto simp: Let_def n e split: if_splits sum.splits prod.splits outcome.splits dest!: IH
          intro: stop skip error [unfolded drained_by_def] lost [unfolded drained_by_def]
            last [unfolded drained_by_def] more [unfolded drained_by_def])
  qed
  then show ?thesis using assms(1) by blast
qed

locale inbound_relation = protocol_relation +
  assumes deferred: "R s (s\<lparr> ap_deferred_gap_frames := fs \<rparr>)"
begin

lemma keeps_gap: "keeps R (inbound_gap env decoded snap phase ts st)"
  unfolding inbound_gap_def Let_def
  by (intro keeps_rules keeps_calls keeps_rejects) (simp add: keeps_def deferred)

lemma keeps_observe: "dispatchable allowed decoded \<Longrightarrow> keeps R (observe_inbound env decoded snap phase ts)"
  unfolding keeps_def
proof
  fix s :: "'a AdminProtocol"
  assume d: "dispatchable allowed decoded"
  obtain status core where o: "ObserveInboundSeq (h_msg_seq_num (dm_header decoded)) (ap_session s) = (status, core)"
    by (cases "ObserveInboundSeq (h_msg_seq_num (dm_header decoded)) (ap_session s)")
  show "R s (snd (observe_inbound env decoded snap phase ts s))"
    unfolding observe_inbound_def inspect_def o prod.case
    using R_observe [OF d o]
    by (rule keeps_update_then)
      (intro keeps_rules keeps_ConsumeResend keeps_commit keeps_gap keeps_rejects keeps_validate_admin keeps_dispatch d)
qed

lemma keeps_accept:
  assumes "dispatchable allowed decoded"
  shows "keeps R (sequence_inbound env decoded snap ts)" "keeps R (accept_inbound env decoded snap ts)"
    "keeps R (OnInbound_decoded env decoded ts)"
proof -
  show 1: "keeps R (sequence_inbound env decoded snap ts)" for snap
    unfolding sequence_inbound_def Let_def
    by (intro keeps_rules keeps_calls keeps_processing keeps_observe assms)
  have "keeps R (RefreshSessionStateFromStore env)" "keeps R (ResetSessionState env i n b)"
    if "view_msg_type (dm_view decoded) = ''A''" for i n b
    using that assms by (auto simp: dispatchable_def intro: keeps_restores)
  then show 2: "keeps R (accept_inbound env decoded snap ts)" for snap
    unfolding accept_inbound_def Let_def by (intro keeps_rules 1) auto
  show "keeps R (OnInbound_decoded env decoded ts)"
    unfolding OnInbound_decoded_def Let_def
    by (intro keeps_rules keeps_calls keeps_rejects keeps_processing 2 assms)
qed

lemma drain_R:
  assumes "drain_loop env ts i event s = Some y" and "all_dispatchable allowed env"
  shows "R s (snd y)"
proof -
  have run: "R s t" if "drained_by env ts i s decoded r t" for i s decoded r t
    using that assms(2) keepsD [OF keeps_accept(3), of decoded env ts "taken i s"] deferred
    unfolding drained_by_def all_dispatchable_def by (blast intro: trans)
  from assms(1) show ?thesis
    by (rule drain_induct) (auto simp: refl intro: run trans [OF deferred] trans [OF run])
qed

lemma keeps_inbound:
  assumes "all_dispatchable allowed env"
  shows "keeps R (OnInbound env frame ts)" "keeps R (OnInbound_vector env frame ts)"
proof -
  have drop: "R s (s'\<lparr> ap_deferred_gap_frames := fs \<rparr>)" if "drain_loop env ts 0 event s = Some (x, s')" for event s x s' fs
    using drain_R [OF that assms] deferred [of s' fs] by (auto intro: trans)
  have drain: "R s s'" if "DrainDeferredGapFrames env ts event s = (x, s')" for event s x s'
    using that unfolding DrainDeferredGapFrames_def
    by (auto simp: refl split: option.splits prod.splits intro: drop)
  have k: "keeps R (\<lambda>s. case DrainDeferredGapFrames env ts (g event) s of
             ((event', Returns _), s') \<Rightarrow> (Returns (move_event event'), s')
           | ((event', Fails e), s') \<Rightarrow> (h event' e, s')
           | ((event', NoResult), s') \<Rightarrow> (NoResult, s'))" for g event and h :: "ProtocolEvent \<Rightarrow> Status \<Rightarrow> ProtocolEvent outcome"
    unfolding keeps_def by (auto split: prod.split outcome.split intro: drain)
  show "keeps R (OnInbound env frame ts)"
    using assms unfolding OnInbound_def all_dispatchable_def by (intro keeps_rules keeps_replies keeps_accept k) auto
  show "keeps R (OnInbound_vector env frame ts)"
    using assms unfolding OnInbound_vector_def all_dispatchable_def by (intro keeps_rules keeps_replies keeps_accept k) auto
qed

end

locale logon_relation = inbound_relation +
  assumes every: "allowed x"
begin

lemma every_dispatchable: "dispatchable allowed decoded" "all_dispatchable allowed env"
  by (simp_all add: dispatchable_def all_dispatchable_def every)

lemmas keeps_any = keeps_observe [OF every_dispatchable(1)] keeps_accept [OF every_dispatchable(1)]
  keeps_inbound [OF every_dispatchable(2)] keeps_inbound_op [OF every] keeps_restores [OF every]
  keeps_processing [OF every_dispatchable(1)]

end

end
