(* ===== verification/Admin_Samples.thy ===== *)
theory Admin_Samples
  imports Admin_Inbound Memory_Store
begin

text \<open>
  A concrete environment for the admin protocol: the in-memory store behind the interface of the
  session store, and a two-byte message format in place of the decoder and encoders. The witnesses of
  the protocol's properties are evaluated in it.
\<close>

section \<open>The in-memory store behind the protocol\<close>

text \<open>
  The methods of \<^verbatim>\<open>MemorySessionStore\<close>; it inherits \<^verbatim>\<open>SaveOutboundViewAndRecoveryState\<close> and \<^verbatim>\<open>Refresh\<close>. The
  codec, the dictionary and the clock remain parameters.
\<close>

definition memory_env ::
    "(bytes \<Rightarrow> bool \<Rightarrow> DecodedMessageView Result) \<Rightarrow> (MessageView \<Rightarrow> EncodeOptions \<Rightarrow> bytes Result) \<Rightarrow>
     (string \<Rightarrow> bool) \<Rightarrow> nat \<Rightarrow> MemorySessionStore Env" where
  "memory_env decode encode known now =
     \<lparr> en_SaveOutboundViewAndRecoveryState =
         default_SaveViewAndRecoveryState Memory_SaveOutboundView Memory_SaveRecoveryState,
       en_SaveInboundViewAndRecoveryState = Memory_SaveInboundViewAndRecoveryState,
       en_SaveRecoveryState = Memory_SaveRecoveryState,
       en_LoadRecoveryState = Memory_LoadRecoveryState,
       en_LoadOutboundRangeViews = Memory_LoadOutboundRangeViews,
       en_ResetSession = Memory_ResetSession,
       en_Refresh = (\<lambda>st. (Ok, st)),
       en_DecodeFixMessageView = decode,
       en_encode_template = (\<lambda>_. None),
       en_EncodeFixMessageToBuffer = encode,
       en_find_message = known,
       en_field_enum = (\<lambda>_. None),
       en_missing_required = (\<lambda>_ _. None),
       en_from_chars = (\<lambda>_. None),
       en_now = now \<rparr>"

section \<open>A two-byte message format\<close>

text \<open>The first byte is the message type, the second the sequence number.\<close>

definition sample_session_header :: "u8 \<Rightarrow> u8 \<Rightarrow> SessionHeaderView" where
  "sample_session_header t q =
     \<lparr> h_begin_string = ''FIX.4.4'', h_msg_type = string_of [t], h_sender_comp_id = ''SELL'', h_sender_sub_id = [],
       h_target_comp_id = ''BUY'', h_target_sub_id = [], h_on_behalf_of_comp_id = [], h_deliver_to_comp_id = [],
       h_default_appl_ver_id = [], h_appl_ver_id = [], h_sending_time = [], h_orig_sending_time = [],
       h_body_length = 2, h_msg_seq_num = ucast q, h_checksum = 0, h_poss_dup = False, h_poss_resend = False \<rparr>"

definition sample_slot :: "u32 \<Rightarrow> u32 \<Rightarrow> ParsedFieldSlot" where
  "sample_slot tag offset = \<lparr> sl_tag = tag, sl_value_offset = offset, sl_value_length = 1, sl_type = kFieldInt \<rparr>"

text \<open>A Logon carries EncryptMethod 0 and HeartBtInt 9, one digit each.\<close>

definition sample_message :: "u8 \<Rightarrow> u8 \<Rightarrow> ParsedMessageData" where
  "sample_message t q =
     (if t = 65
      then snd (AppendParsedFieldSlot RootContainer (sample_slot kHeartBtInt 3)
        (snd (AppendParsedFieldSlot RootContainer (sample_slot kEncryptMethod 2)
          (ParsedMessageData_new\<lparr> pm_raw := [t, q, 48, 57], pm_msg_type := [t] \<rparr>))))
      else ParsedMessageData_new\<lparr> pm_raw := [t, q], pm_msg_type := [t] \<rparr>)"

definition sample_decoded :: "u8 \<Rightarrow> u8 \<Rightarrow> DecodedMessageView" where
  "sample_decoded t q =
     \<lparr> dm_message = sample_message t q, dm_header = sample_session_header t q, dm_raw = [t, q], dm_validation_issue = no_issue \<rparr>"

fun sample_decode :: "bytes \<Rightarrow> bool \<Rightarrow> DecodedMessageView Result" where
  "sample_decode [t, q] verify = Inr (sample_decoded t q)"
| "sample_decode _ verify = Inl (FormatError ''frame must have two bytes'')"

definition sample_encode :: "MessageView \<Rightarrow> EncodeOptions \<Rightarrow> bytes Result" where
  "sample_encode message options = Inr (bytes_of (view_msg_type message) @ [ucast (eo_msg_seq_num options)])"

definition sample_env :: "MemorySessionStore Env" where
  "sample_env = memory_env sample_decode sample_encode (\<lambda>t. t = ''D'') 0"

text \<open>The same for a counterparty that never sends a Logon.\<close>

definition logonless_env :: "MemorySessionStore Env" where
  "logonless_env =
     memory_env (\<lambda>frame verify. if frame \<noteq> [] \<and> hd frame = 65 then Inl (FormatError ''no Logon'') else sample_decode frame verify)
       sample_encode (\<lambda>t. t = ''D'') 0"

definition sample_admin_config :: "bool \<Rightarrow> AdminProtocolConfig" where
  "sample_admin_config initiator =
     \<lparr> ac_session = sample_session_config\<lparr> cfg_is_initiator := initiator \<rparr>, ac_transport_profile = Fix44,
       ac_begin_string = ''FIX.4.4'', ac_sender_comp_id = ''BUY'', ac_target_comp_id = ''SELL'',
       ac_default_appl_ver_id = [], ac_supported_app_msg_types = [], ac_heartbeat_interval_seconds = 30,
       ac_sending_time_threshold_seconds = 0, ac_warmup_message_count = 0, ac_logon_fields = [],
       ac_timestamp_resolution = kMilliseconds, ac_application_messages_available = True,
       ac_reset_seq_num_on_logon = False, ac_reset_seq_num_on_logout = False, ac_reset_seq_num_on_disconnect = False,
       ac_refresh_on_logon = False, ac_send_next_expected_msg_seq_num = False,
       ac_validation_policy = Strict, ac_validation_callback = None \<rparr>"

text \<open>A new session with an empty store.\<close>

definition sample_admin :: "bool \<Rightarrow> MemorySessionStore AdminProtocol" where
  "sample_admin initiator = AdminProtocol_new sample_env (sample_admin_config initiator) (Some MemorySessionStore_new)"

end
