(* ===== verification/Admin_Steps.thy ===== *)
theory Admin_Steps
  imports Admin_Rules Admin_Samples
begin

text \<open>
  The public interface of \<^verbatim>\<open>AdminProtocol\<close> as one step function, the runs of a session, and what holds
  of every step: the protocol changes its session core only through the interface of the core, it never
  changes its configuration, and it sends at most one Logout on a connection.
\<close>

section \<open>Steps and runs\<close>

datatype AdminOp =
    AdminConnected u64
  | AdminClosed
  | AdminInbound bytes u64
  | AdminInboundVector bytes u64
  | AdminTimer u64
  | AdminSend MessageView u64 SessionSendEnvelopeView
  | AdminSendEncoded EncodedApplicationMessageView u64 SessionSendEnvelopeView EncodedOutboundExtrasView
  | AdminLogout string u64

definition frame_event :: "('st, EncodedFrame) protocol \<Rightarrow> ('st, ProtocolEvent) protocol" where
  "frame_event m = bind m (\<lambda>f. ret (push_frame f ProtocolEvent_new))"

fun admin_step :: "'st Env \<Rightarrow> AdminOp \<Rightarrow> ('st, ProtocolEvent) protocol" where
  "admin_step env (AdminConnected ts) = Admin_OnTransportConnected env ts"
| "admin_step env AdminClosed = and_do (Admin_OnTransportClosed env) (ret ProtocolEvent_new)"
| "admin_step env (AdminInbound frame ts) = OnInbound env frame ts"
| "admin_step env (AdminInboundVector frame ts) = OnInbound_vector env frame ts"
| "admin_step env (AdminTimer ts) = OnTimer env ts"
| "admin_step env (AdminSend message ts envelope) = frame_event (SendApplication env message ts envelope)"
| "admin_step env (AdminSendEncoded message ts envelope extras) =
     frame_event (SendEncodedApplication env message ts envelope extras)"
| "admin_step env (AdminLogout t ts) = frame_event (Admin_BeginLogout env t ts)"

text \<open>A run: every step has its own environment, since the clock moves on. The frames it hands to the transport.\<close>

fun admin_run :: "('st Env \<times> AdminOp) list \<Rightarrow> 'st AdminProtocol \<Rightarrow> 'st AdminProtocol" where
  "admin_run [] s = s"
| "admin_run ((env, x) # xs) s = admin_run xs (snd (admin_step env x s))"

definition step_frames :: "ProtocolEvent outcome \<Rightarrow> EncodedFrame list" where
  "step_frames r = (case r of Returns e \<Rightarrow> ev_outbound_frames e | _ \<Rightarrow> [])"

fun admin_frames :: "('st Env \<times> AdminOp) list \<Rightarrow> 'st AdminProtocol \<Rightarrow> EncodedFrame list" where
  "admin_frames [] s = []"
| "admin_frames ((env, x) # xs) s = step_frames (fst (admin_step env x s)) @ admin_frames xs (snd (admin_step env x s))"

section \<open>Relations kept by every step\<close>

locale step_relation = logon_relation +
  assumes closed: "R s (s\<lparr> ap_outstanding_test_request_id := [], ap_logout_sent := False, ap_test_request_sent_ns := 0,
    ap_logout_sent_ns := 0, ap_deferred_gap_frames := [] \<rparr>)"
begin

lemma keeps_closed: "keeps R (Admin_OnTransportClosed env)"
  unfolding Admin_OnTransportClosed_def Let_def
  by (intro keeps_rules keeps_calls keeps_any) (simp add: keeps_def closed)

lemma keeps_step: "keeps R (admin_step env x)"
  by (cases x)
    (auto simp: frame_event_def intro!: keeps_rules keeps_closed keeps_any keeps_timer keeps_sends
      keeps_Admin_BeginLogout)

lemma keeps_run: "R s (admin_run xs s)"
proof (induction xs arbitrary: s)
  case (Cons x xs)
  obtain env y where "x = (env, y)" by (cases x)
  moreover have "R s (snd (admin_step env y s))" using keeps_step by (simp add: keeps_def)
  ultimately show ?case using Cons trans by auto
qed (simp add: refl)

end

lemma core_step_config: "sc_config (snd (core_step x c)) = sc_config c"
  by (cases x) (auto simp: core_effects ObserveInboundSeq_def leave_resend_if_complete_def CheckDayCut_def Let_def
      split: option.split bool.split)

text \<open>What a step leaves alone, and how it changes the session core.\<close>

definition same_setting :: "'st AdminProtocol \<Rightarrow> 'st AdminProtocol \<Rightarrow> bool" where
  "same_setting s s' \<longleftrightarrow> ap_config s' = ap_config s \<and> ap_initialization_error s' = ap_initialization_error s \<and>
     (ap_store s' = None \<longleftrightarrow> ap_store s = None) \<and> sc_config (ap_session s') = sc_config (ap_session s)"

definition core_steps :: "'st AdminProtocol \<Rightarrow> 'st AdminProtocol \<Rightarrow> bool" where
  "core_steps s s' \<longleftrightarrow> (\<exists>ops. ap_session s' = core_run ops (ap_session s))"

definition logout_latched :: "'st AdminProtocol \<Rightarrow> 'st AdminProtocol \<Rightarrow> bool" where
  "logout_latched s s' \<longleftrightarrow> (ap_logout_sent s \<longrightarrow> ap_logout_sent s')"

interpretation setting: step_relation same_setting "\<lambda>_. True"
  by unfold_locales (auto simp: same_setting_def core_step_config simp del: core_step.simps)

lemma core_steps_step: "\<exists>ops. snd (core_step operation c) = core_run ops c"
  by (rule exI [of _ "[operation]"]) simp

interpretation core: step_relation core_steps "\<lambda>_. True"
proof
  fix s t u :: "'a AdminProtocol"
  show "core_steps s s" by (auto simp: core_steps_def intro: exI [of _ "[]"])
  show "core_steps s t \<Longrightarrow> core_steps t u \<Longrightarrow> core_steps s u"
    unfolding core_steps_def by (metis core_run_append)
qed (auto simp: core_steps_def core_steps_step simp del: core_step.simps intro: exI [of _ "[]"])

interpretation latch: logon_relation logout_latched "\<lambda>_. True"
  by unfold_locales (auto simp: logout_latched_def)

section \<open>The Logout frames of a step\<close>

definition is_logout :: "EncodedFrame \<Rightarrow> bool" where
  "is_logout f \<longleftrightarrow> fr_admin f \<and> fr_msg_type f = ''5''"

definition logouts :: "EncodedFrame list \<Rightarrow> nat" where
  "logouts fs = length (filter is_logout fs)"

definition sent :: "'st AdminProtocol \<Rightarrow> nat" where
  "sent s = (if ap_logout_sent s then 1 else 0)"

lemma logouts_simps [simp]: "logouts [] = 0" "logouts (fs @ gs) = logouts fs + logouts gs"
  by (simp_all add: logouts_def)

text \<open>
  \<open>emits n p m\<close>: a result \<open>x\<close> of \<open>m\<close> satisfies \<open>p\<close>, and the \<open>n x\<close> Logout frames in it are paid for by the
  latch, which goes up by at most one.
\<close>

definition emits :: "('a \<Rightarrow> nat) \<Rightarrow> ('a \<Rightarrow> bool) \<Rightarrow> ('st, 'a) protocol \<Rightarrow> bool" where
  "emits n p m \<longleftrightarrow> (\<forall>s x s'. m s = (Returns x, s') \<longrightarrow> p x \<and> n x + sent s \<le> sent s')"

abbreviation silent :: "('st, 'a) protocol \<Rightarrow> bool" where
  "silent m \<equiv> emits (\<lambda>_. 0) (\<lambda>_. True) m"

abbreviation emits_frame :: "('st, EncodedFrame) protocol \<Rightarrow> bool" where
  "emits_frame m \<equiv> emits (\<lambda>f. logouts [f]) (\<lambda>_. True) m"

abbreviation emits_frames :: "('st, EncodedFrame list) protocol \<Rightarrow> bool" where
  "emits_frames m \<equiv> emits logouts (\<lambda>_. True) m"

abbreviation event_logouts :: "ProtocolEvent \<Rightarrow> nat" where
  "event_logouts e \<equiv> logouts (ev_outbound_frames e)"

text \<open>An event without application messages.\<close>

abbreviation plain :: "ProtocolEvent \<Rightarrow> bool" where
  "plain e \<equiv> ev_application_messages e = [] \<and> ev_owned_application_message e = None"

abbreviation emits_event :: "('st, ProtocolEvent) protocol \<Rightarrow> bool" where
  "emits_event m \<equiv> emits event_logouts plain m"

lemma silent_latch: "keeps logout_latched m \<Longrightarrow> silent m"
  unfolding emits_def keeps_def logout_latched_def sent_def by (metis le_numeral_extra(4) add_0 snd_conv zero_le)

lemma emits_basic: "p x \<Longrightarrow> n x = 0 \<Longrightarrow> emits n p (ret x)" "emits n p (fail e)" "emits n p no_result"
  by (simp_all add: emits_def)

lemma emits_bind:
  assumes "emits k q m" and "\<And>x. q x \<Longrightarrow> emits (\<lambda>y. n y - k x) p (f x)"
  shows "emits n p (bind m f)"
  unfolding emits_def
proof (intro allI impI)
  fix s y s' assume "bind m f s = (Returns y, s')"
  then obtain x s1 where "m s = (Returns x, s1)" and f: "f x s1 = (Returns y, s')" by (rule bind_Returns)
  then have 1: "q x" "k x + sent s \<le> sent s1" using assms(1) by (auto simp: emits_def)
  have "p y \<and> n y - k x + sent s1 \<le> sent s'" using assms(2) [OF 1(1)] f by (auto simp: emits_def)
  then show "p y \<and> n y + sent s \<le> sent s'" using 1(2) by auto
qed

lemma emits_after: "silent m \<Longrightarrow> (\<And>x. emits n p (f x)) \<Longrightarrow> emits n p (bind m f)"
  by (rule emits_bind [of "\<lambda>_. 0" "\<lambda>_. True"]) simp_all

lemma emits_event_ret: "emits_frame m \<Longrightarrow> (\<And>f. ev_outbound_frames (g f) = [f] \<and> plain (g f)) \<Longrightarrow>
    emits_event (bind m (\<lambda>f. ret (g f)))"
  by (rule emits_bind [of "\<lambda>f. logouts [f]" "\<lambda>_. True"]) (auto intro!: emits_basic)

lemma emits_case:
  "(c \<Longrightarrow> emits n p a) \<Longrightarrow> (\<not> c \<Longrightarrow> emits n p b) \<Longrightarrow> emits n p (if c then a else b)"
  "(x = None \<Longrightarrow> emits n p a) \<Longrightarrow> (\<And>y. x = Some y \<Longrightarrow> emits n p (f y)) \<Longrightarrow>
     emits n p (case x of None \<Rightarrow> a | Some y \<Rightarrow> f y)"
  "(\<And>y. z = Inl y \<Longrightarrow> emits n p (g y)) \<Longrightarrow> (\<And>y. z = Inr y \<Longrightarrow> emits n p (h y)) \<Longrightarrow>
     emits n p (case z of Inl y \<Rightarrow> g y | Inr y \<Rightarrow> h y)"
  "(\<And>y z. w = (y, z) \<Longrightarrow> emits n p (k y z)) \<Longrightarrow> emits n p (case w of (y, z) \<Rightarrow> k y z)"
  by (auto split: option.split sum.split prod.split)

lemma emits_inspect: "(\<And>s. emits n p (f s)) \<Longrightarrow> emits n p (inspect f)"
  by (simp add: emits_def)

lemmas emits_rules = emits_case emits_inspect emits_basic

lemmas silent_calls = latch.keeps_leaves [THEN silent_latch] latch.keeps_basic [THEN silent_latch]

lemma Finalize_emits:
  "\<not> (admin \<and> t = ''5'') \<Longrightarrow> emits_frame (FinalizeEncodedFrame env t admin ts persist poss_dup fl q enc)"
  unfolding FinalizeEncodedFrame_def Let_def
  by (intro emits_after silent_calls emits_rules) (simp_all add: logouts_def is_logout_def)

lemma EncodeFrame_emits:
  "\<not> (admin \<and> view_msg_type message = ''5'') \<Longrightarrow>
     emits_frame (EncodeFrame env message admin ts persist poss_dup alloc fl q orig envelope)"
  "emits_frame (EncodeFrame_encoded env m False ts persist poss_dup alloc fl q orig envelope extras)"
  unfolding EncodeFrame_def EncodeFrame_encoded_def
  by (intro emits_after emits_case emits_inspect silent_calls Finalize_emits; simp)+

lemma md_msg_type_set [simp]:
  "md_msg_type (set_string tag v m) = md_msg_type m" "md_msg_type (set_int tag w m) = md_msg_type m"
  "md_msg_type (set_boolean tag b m) = md_msg_type m" "md_msg_type (add_string tag v m) = md_msg_type m"
  "md_msg_type (BuildAdminMessage t) = t"
  by (simp_all add: set_string_def set_int_def set_boolean_def add_string_def upsert_field_def BuildAdminMessage_def
      MessageDataWriter_new_def)

lemma md_msg_type_fold [simp]:
  "md_msg_type (fold (\<lambda>field. add_string (lf_tag field) (lf_value field)) lfs m) = md_msg_type m"
  by (induction lfs arbitrary: m) simp_all

lemma encode_admin_emits: "md_msg_type data \<noteq> ''5'' \<Longrightarrow> emits_frame (encode_admin env data ts)"
  unfolding encode_admin_def by (rule EncodeFrame_emits) (simp add: Message_view_def)

lemma frames_emit:
  "emits_frame (BuildLogonFrame env ts reset)" "emits_frame (BuildHeartbeatFrame env ts i)"
  "emits_frame (BuildTestRequestFrame env ts i)" "emits_frame (BuildResendRequestFrame env b e ts)"
  "emits_frame (BuildGapFillFrame env b q ts)" "emits_frame (BuildRejectFrame env q t g r x ts)"
  unfolding BuildLogonFrame_def BuildHeartbeatFrame_def BuildTestRequestFrame_def BuildResendRequestFrame_def
    BuildGapFillFrame_def BuildRejectFrame_def Let_def
  by (intro emits_inspect encode_admin_emits EncodeFrame_emits, simp add: Message_view_def)+

lemma sends_emit:
  "emits_frame (SendApplication env message ts envelope)" "emits_frame (SendEncodedApplication env m ts envelope extras)"
  unfolding SendApplication_def SendEncodedApplication_def
  by (intro emits_after emits_rules silent_calls EncodeFrame_emits; simp)+

lemma Finalize_type:
  assumes "FinalizeEncodedFrame env t admin ts persist poss_dup fl q enc s = (Returns f, s')"
  shows "fr_msg_type f = t \<and> fr_admin f = admin \<and> fr_bytes f = frame_assign enc"
  using assms unfolding FinalizeEncodedFrame_def Let_def by (auto elim!: bind_Returns)

text \<open>The one operation that makes a Logout: it needs the latch to be down and puts it up.\<close>

lemma BeginLogout_emits: "emits_frame (Admin_BeginLogout env t ts)"
  unfolding emits_def
proof (intro allI impI conjI)
  fix s f s' assume "Admin_BeginLogout env t ts s = (Returns f, s')"
  then obtain s1 s2 data where "EnsureInitialized s = (Returns (), s1)" and latch: "\<not> ap_logout_sent s1"
    and enc: "encode_admin env data ts (s2\<lparr> ap_logout_sent := True, ap_logout_sent_ns := ts \<rparr>) = (Returns f, s')"
    unfolding Admin_BeginLogout_def Let_def by (auto elim!: bind_Returns split: if_splits)
  then have "sent s = 0"
    using keepsD [OF latch.keeps_store_calls(1), of s] by (auto simp: sent_def logout_latched_def)
  moreover have "sent s' = 1"
    using keepsD [OF latch.keeps_EncodeFrame(4) enc] by (simp add: sent_def logout_latched_def)
  moreover have "logouts [f] \<le> 1" by (simp add: logouts_def)
  ultimately show "logouts [f] + sent s \<le> sent s'" by simp
qed simp

lemma replay_frames_emit:
  assumes "replay_frames env ts opts rs e q i fs s = Some y"
  shows "\<forall>gs s'. y = (Returns gs, s') \<longrightarrow> logouts gs \<le> logouts fs"
proof (rule replay_frames.raw_induct
    [where P = "\<lambda>_ _ _ _ _ _ _ fs _ y. \<forall>gs s'. y = (Returns gs, s') \<longrightarrow> logouts gs \<le> logouts fs", OF _ assms], intro allI impI)
  fix rec env ts opts rs e q i fs y gs s' and s :: "'st AdminProtocol"
  assume IH: "\<And>env ts opts rs e q i fs s y. rec env ts opts rs e q i fs s = Some y \<Longrightarrow>
      \<forall>gs s'. y = (Returns gs, s') \<longrightarrow> logouts gs \<le> logouts fs"
    and run: "(if q \<le> e then
        (if \<not> replayable rs i q then
           (case gap_scan rs e q i of
              None \<Rightarrow> None
            | Some (q', i') \<Rightarrow>
                (case BuildGapFillFrame env q q' ts s of
                   (Returns gap_fill, s') \<Rightarrow> rec env ts opts rs e q' i' (fs @ [gap_fill]) s'
                 | (Fails e, s') \<Rightarrow> Some (Fails e, s')
                 | (NoResult, s') \<Rightarrow> Some (NoResult, s')))
         else
           (case replay_record opts (rs ! i) of
              None \<Rightarrow> Some (NoResult, s)
            | Some (Inl e) \<Rightarrow> Some (Fails e, s)
            | Some (Inr frame) \<Rightarrow> rec env ts opts rs e (q + 1) (i + 1) (fs @ [frame]) s))
      else Some (Returns fs, s)) = Some y" and y: "y = (Returns gs, s')"
  have gap: "logouts gs \<le> logouts fs" if "BuildGapFillFrame env q q' ts s = (Returns f, t)"
      "rec env ts opts rs e q' i' (fs @ [f]) t = Some (Returns gs, s')" for q' f t i'
  proof -
    have "\<not> is_logout f" using that(1)
      by (auto simp: BuildGapFillFrame_def EncodeFrame_def Message_view_def is_logout_def Let_def
          elim!: bind_Returns dest!: Finalize_type)
    then show ?thesis using IH [OF that(2)] by (simp add: logouts_def)
  qed
  have replay: "logouts gs \<le> logouts fs" if "replay_record opts r = Some (Inr f)"
      "rec env ts opts rs e q' i' (fs @ [f]) s = Some (Returns gs, s')" for r f q' i'
  proof -
    have "\<not> is_logout f" using that(1)
      by (auto simp: replay_record_def is_logout_def split: option.splits sum.splits)
    then show ?thesis using IH [OF that(2)] by (simp add: logouts_def)
  qed
  from run y show "logouts gs \<le> logouts fs"
    by (auto split: if_splits option.splits prod.splits outcome.splits sum.splits intro: gap replay)
qed

lemma replay_emits:
  "emits_frames (ReplayOutbound env b e ts)"
  "plain event \<Longrightarrow>
     emits (\<lambda>x. event_logouts x - event_logouts event) plain
       (ReplayCounterpartyExpectedRange env q n ts event)"
proof -
  have loop: "emits_frames (inspect (\<lambda>s. ending (replay_frames env ts (replay_options env (ap_config s)) rs q b 0 [] s)))"
    for rs q b
    unfolding emits_def
  proof (intro allI impI conjI)
    fix s gs s'
    assume "inspect (\<lambda>s. ending (replay_frames env ts (replay_options env (ap_config s)) rs q b 0 [] s)) s = (Returns gs, s')"
    then have "replay_frames env ts (replay_options env (ap_config s)) rs q b 0 [] s = Some (Returns gs, s')"
      by (auto simp: ending_def split: option.splits)
    from replay_frames_emit [OF this] latch.replay_frames_R [OF this]
    show "logouts gs + sent s \<le> sent s'" by (simp add: logout_latched_def sent_def)
  qed simp
  have 1: "emits_frames (ReplayOutbound env b e ts)" for b e
    unfolding ReplayOutbound_def Let_def
    by (rule emits_inspect) (intro emits_basic emits_case emits_after loop silent_calls; simp)
  show "emits_frames (ReplayOutbound env b e ts)" by (rule 1)
  show "emits (\<lambda>x. event_logouts x - event_logouts event) plain
       (ReplayCounterpartyExpectedRange env q n ts event)" if "plain event"
    unfolding ReplayCounterpartyExpectedRange_def
    by (intro emits_case emits_basic emits_bind [OF 1]) (simp_all add: that)
qed

lemma RejectInbound_emits: "emits_event (RejectInbound env decoded tag reason t ts d)"
  unfolding RejectInbound_def Let_def
  by (intro emits_case emits_event_ret BeginLogout_emits frames_emit)
    (simp_all add: push_frame_def push_warning_def push_error_def ProtocolEvent_new_def)

lemma logout_event_emits:
  "ev_outbound_frames event = [] \<Longrightarrow> plain event \<Longrightarrow> emits_event (logout_event env t ts event)"
  unfolding logout_event_def by (intro emits_event_ret BeginLogout_emits) (simp_all add: push_frame_def)

lemma rejects_emit:
  "emits_event (reject_with env decoded ts rj)" "emits_event (reject_then_logout env decoded tag reason t ts)"
  "emits_event (BuildPhaseViolationLogout env t snap mt ts)"
proof -
  show "emits_event (reject_with env decoded ts rj)" unfolding reject_with_def by (rule RejectInbound_emits)
  show "emits_event (reject_then_logout env decoded tag reason t ts)"
    unfolding reject_then_logout_def
    by (rule emits_bind [OF RejectInbound_emits], rule emits_bind [OF BeginLogout_emits], rule emits_basic)
      (auto simp: push_frame_def)
  show "emits_event (BuildPhaseViolationLogout env t snap mt ts)"
    unfolding BuildPhaseViolationLogout_def Let_def
    by (intro emits_inspect emits_case emits_event_ret BeginLogout_emits emits_basic)
      (simp_all add: push_frame_def push_error_def ProtocolEvent_new_def)
qed

lemmas silent_more = silent_calls latch.keeps_calls [THEN silent_latch]
  latch.keeps_any [THEN silent_latch]

lemmas event_simps = push_frame_def push_warning_def push_error_def push_message_def ProtocolEvent_new_def

lemma ProcessInboundLogon_emits: "emits_event (ProcessInboundLogon env decoded ts)"
proof -
  let ?resp = "\<lambda>c r s. if c s then bind (BuildLogonFrame env ts (r s)) (\<lambda>f. ret (push_frame f ProtocolEvent_new))
      else ret ProtocolEvent_new"
  have resp: "emits_event (?resp c r s)" for c r and s :: "'st AdminProtocol"
    by (intro emits_case emits_event_ret emits_basic frames_emit) (simp_all add: event_simps)
  have cont: "emits (\<lambda>y. event_logouts y - event_logouts e) plain
      (and_do (session_op OnLogonAccepted) (and_do (PersistRecoveryState env)
        (case nx of None \<Rightarrow> ret (e\<lparr> ev_session_active := True \<rparr>)
         | Some v \<Rightarrow> ReplayCounterpartyExpectedRange env (q v) n ts (e\<lparr> ev_session_active := True \<rparr>))))"
    if "plain e" for e nx n and q :: "64 word \<Rightarrow> u32"
    using that replay_emits(2) [of "e\<lparr> ev_session_active := True \<rparr>"]
    by (intro emits_after silent_more emits_case) (auto intro: emits_basic)
  show ?thesis
    unfolding ProcessInboundLogon_def Let_def
    by (intro emits_after [OF silent_latch] latch.keeps_rules latch.keeps_calls latch.keeps_any emits_inspect emits_case
        emits_bind [OF resp] logout_event_emits cont) (simp_all add: event_simps)
qed

lemma processing_emits:
  "emits_event (build_business_reject env decoded ts reason t)" "emits_event (HandleInboundDecodeFailure env st ts)"
  "emits_event (reject_comp_ids env decoded snap ts rj)"
  "emits_event (stale_sequence_reset env decoded snap ts)" "emits_event (stale_inbound env decoded snap ts)"
  "emits_event (gap_fill_received env decoded ts)" "emits_event (logout_received env ts)"
  "emits_event (heartbeat_received env decoded)"
  unfolding build_business_reject_def HandleInboundDecodeFailure_def reject_comp_ids_def
    stale_inbound_def stale_sequence_reset_def gap_fill_received_def logout_received_def heartbeat_received_def Let_def
  subgoal by (intro emits_event_ret encode_admin_emits) (simp_all add: event_simps)
  subgoal by (intro emits_rules emits_after silent_more) (simp_all add: event_simps)
  subgoal by (intro emits_case emits_after silent_more rejects_emit emits_rules)
  subgoal by (intro emits_case emits_after silent_more RejectInbound_emits logout_event_emits emits_basic) (simp_all add: event_simps)
  subgoal by (intro emits_case emits_inspect emits_after silent_more RejectInbound_emits logout_event_emits emits_basic) (simp_all add: event_simps)
  subgoal by (intro emits_case emits_inspect emits_after silent_more RejectInbound_emits emits_basic) (simp_all add: event_simps)
  subgoal by (intro emits_case emits_inspect logout_event_emits emits_basic) (simp_all add: event_simps)
  subgoal by (intro emits_after emits_basic silent_latch) (auto simp: event_simps keeps_def logout_latched_def)
  done

text \<open>The event of an inbound message carries no application message or just that one.\<close>

definition delivers :: "DecodedMessageView \<Rightarrow> ProtocolEvent \<Rightarrow> bool" where
  "delivers decoded e \<longleftrightarrow> ev_owned_application_message e = None \<and>
     (ev_application_messages e = [] \<or> ev_application_messages e = [Borrow (dm_message decoded)] \<and> ev_outbound_frames e = [])"

lemma emits_weaken: "emits n p m \<Longrightarrow> (\<And>x. p x \<Longrightarrow> q x) \<Longrightarrow> emits n q m"
  by (auto simp: emits_def)

lemma plain_delivers: "emits_event m \<Longrightarrow> emits event_logouts (delivers decoded) m"
  by (erule emits_weaken) (simp add: delivers_def)

lemma application_emits: "emits event_logouts (delivers decoded) (ProcessInboundApplication env decoded ts)"
  unfolding ProcessInboundApplication_def Let_def
  by (intro emits_inspect emits_case emits_basic plain_delivers processing_emits rejects_emit)
    (simp_all add: delivers_def event_simps)

lemma dispatch_emits: "emits event_logouts (delivers decoded) (dispatch_inbound env decoded ts)"
proof -
  have resend: "emits_event (resend_request_received env decoded ts)"
    unfolding resend_request_received_def Let_def
    by (rule emits_bind [OF replay_emits(1)]) (auto intro!: emits_basic simp: event_simps)
  show ?thesis
    unfolding dispatch_inbound_def Let_def
    by (intro emits_case application_emits emits_basic plain_delivers ProcessInboundLogon_emits processing_emits resend
        emits_event_ret frames_emit)
      (simp_all add: delivers_def event_simps)
qed

lemma validate_admin_emits:
  assumes "emits event_logouts p m" and "\<And>e. plain e \<Longrightarrow> p e"
  shows "emits event_logouts p (validate_admin env decoded ts m)"
  unfolding validate_admin_def
  by (intro emits_inspect emits_case emits_basic emits_weaken [OF rejects_emit(1)] assms)

lemma sequence_reset_emits: "emits_event (inbound_sequence_reset env decoded snap phase ts)"
  unfolding inbound_sequence_reset_def Let_def
  by (intro emits_case emits_after silent_more validate_admin_emits RejectInbound_emits rejects_emit emits_basic)
    (simp_all add: event_simps)

lemma gap_emits: "emits_event (inbound_gap env decoded snap phase ts st)"
proof -
  have req: "emits_event (bind (BuildResendRequestFrame env b e ts) (\<lambda>f.
      and_do (update (\<lambda>s. s\<lparr> ap_deferred_gap_frames := ap_deferred_gap_frames s @ [dm_raw decoded] \<rparr>))
        (ret (push_frame f ProtocolEvent_new))))" for b e
    by (rule emits_bind [OF frames_emit(4)], rule emits_after [OF silent_latch])
      (auto simp: keeps_def logout_latched_def event_simps intro!: emits_basic)
  show ?thesis
    unfolding inbound_gap_def Let_def
    by (intro emits_inspect emits_case emits_after silent_more rejects_emit req emits_basic)
qed

lemma observe_emits: "emits event_logouts (delivers decoded) (observe_inbound env decoded snap phase ts)"
  unfolding observe_inbound_def
  by (intro emits_inspect emits_case emits_after silent_more validate_admin_emits dispatch_emits plain_delivers gap_emits
      rejects_emit) (auto intro: silent_latch simp: keeps_def logout_latched_def delivers_def)

lemma accept_emits:
  "emits event_logouts (delivers decoded) (sequence_inbound env decoded snap ts)"
  "emits event_logouts (delivers decoded) (accept_inbound env decoded snap ts)"
  "emits event_logouts (delivers decoded) (OnInbound_decoded env decoded ts)"
proof -
  show 1: "emits event_logouts (delivers decoded) (sequence_inbound env decoded snap ts)" for snap
    unfolding sequence_inbound_def Let_def
    by (intro emits_inspect emits_case emits_after silent_more observe_emits plain_delivers sequence_reset_emits
        processing_emits emits_basic) (simp_all add: event_simps)
  show 2: "emits event_logouts (delivers decoded) (accept_inbound env decoded snap ts)" for snap
    unfolding accept_inbound_def Let_def
    by (rule emits_inspect)
      (intro emits_case emits_after [OF silent_latch] latch.keeps_rules latch.keeps_calls latch.keeps_any emits_inspect 1)
  show "emits event_logouts (delivers decoded) (OnInbound_decoded env decoded ts)"
    unfolding OnInbound_decoded_def Let_def
    by (intro emits_inspect emits_case emits_after silent_more 2 plain_delivers processing_emits RejectInbound_emits
        rejects_emit)
qed

lemma settle_frames [simp]: "ev_outbound_frames (settle_event p raw e) = ev_outbound_frames e"
  by (auto simp: settle_event_def AdoptParsedApplicationMessage_def MaterializeApplicationMessages_def Let_def
      split: list.split)

lemma merge_frames [simp]: "ev_outbound_frames (merge_event e f) = ev_outbound_frames e @ ev_outbound_frames f"
  by (simp add: merge_event_def)

lemma move_frames [simp]: "ev_outbound_frames (move_event e) = ev_outbound_frames e"
  by (auto simp: move_event_def RebindOwnedApplicationMessage_def split: option.split list.split)

lemma drain_logouts:
  assumes "drain_loop env ts i event s = Some y"
  shows "event_logouts (fst (fst y)) + sent s \<le> event_logouts event + sent (snd y)"
proof -
  have [simp]: "sent (taken i s) = sent s" for i and s :: "'st AdminProtocol" by (simp add: sent_def)
  have mono: "sent s \<le> sent t" if "drained_by env ts i s decoded r t" for i s decoded r t
    using that keepsD [OF latch.keeps_any(4)] by (fastforce simp: drained_by_def sent_def logout_latched_def)
  have inner: "event_logouts e + sent s \<le> sent t" if "drained_by env ts i s decoded (Returns e) t" for i s decoded e t
    using that accept_emits(3) [of decoded env ts] unfolding drained_by_def emits_def
    by (metis \<open>\<And>i s. sent (taken i s) = sent s\<close>)
  from assms show ?thesis
    by (rule drain_induct) (auto dest: mono inner)
qed

lemma inbound_emits:
  "emits event_logouts (\<lambda>_. True) (OnInbound env frame ts)" "emits event_logouts (\<lambda>_. True) (OnInbound_vector env frame ts)"
proof -
  have drain: "event_logouts e' - event_logouts e + sent s \<le> sent s'"
    if "DrainDeferredGapFrames env ts e s = ((e', r), s')" for e s e' r s'
  proof (cases "drain_loop env ts 0 e s")
    case (Some y)
    then have "event_logouts e' + sent s \<le> event_logouts e + sent s'" "sent s \<le> sent s'"
      using that drain_logouts [OF Some] latch.drain_R [OF Some latch.every_dispatchable(2)]
      by (auto simp: DrainDeferredGapFrames_def sent_def logout_latched_def split: prod.splits if_splits)
    then show ?thesis by linarith
  qed (use that in \<open>simp add: DrainDeferredGapFrames_def\<close>)
  have k: "emits (\<lambda>y. event_logouts y - event_logouts e) (\<lambda>_. True)
       (\<lambda>s. case DrainDeferredGapFrames env ts (settle_event p raw e) s of
             ((event', Returns _), s') \<Rightarrow> (Returns (move_event event'), s')
           | ((event', Fails st), s') \<Rightarrow> (h event' st, s')
           | ((event', NoResult), s') \<Rightarrow> (NoResult, s'))"
    if "\<And>x st e'. h x st = Returns e' \<Longrightarrow> e' = move_event x" for p raw e h
    unfolding emits_def by (auto split: prod.splits outcome.splits dest!: drain that)
  show "emits event_logouts (\<lambda>_. True) (OnInbound env frame ts)"
    unfolding OnInbound_def
    by (intro emits_inspect emits_case emits_bind [OF accept_emits(3)] emits_weaken [OF processing_emits(2)] k) auto
  show "emits event_logouts (\<lambda>_. True) (OnInbound_vector env frame ts)"
    unfolding OnInbound_vector_def
    by (intro emits_inspect emits_case emits_bind [OF accept_emits(3)] emits_weaken [OF processing_emits(2)] k) auto
qed

lemma connected_emits: "emits_event (Admin_OnTransportConnected env ts)"
  unfolding Admin_OnTransportConnected_def
  by (intro emits_after [OF silent_latch] latch.keeps_rules latch.keeps_calls latch.keeps_any emits_inspect emits_case emits_basic
      emits_event_ret frames_emit) (simp_all add: event_simps)

lemma timer_emits: "emits_event (OnTimer env ts)"
proof -
  have "keeps logout_latched (update (\<lambda>s. s\<lparr> ap_outstanding_test_request_id := i, ap_test_request_sent_ns := ns \<rparr>))" for i ns
    by (simp add: keeps_def logout_latched_def)
  then show ?thesis
    unfolding OnTimer_def Let_def
    by (intro emits_after silent_calls emits_inspect emits_case emits_basic emits_event_ret frames_emit)
      (auto simp: event_simps intro: silent_latch)
qed

lemma latch_step: "x \<noteq> AdminClosed \<Longrightarrow> keeps logout_latched (admin_step env x)"
  by (cases x)
    (auto simp: frame_event_def intro!: latch.keeps_rules latch.keeps_any latch.keeps_timer
      latch.keeps_sends latch.keeps_Admin_BeginLogout)

lemma step_emits: "x \<noteq> AdminClosed \<Longrightarrow> emits event_logouts (\<lambda>_. True) (admin_step env x)"
  by (cases x)
    (auto simp: frame_event_def event_simps
      intro: emits_weaken [OF connected_emits] emits_weaken [OF timer_emits] inbound_emits
        emits_weaken [OF emits_event_ret] sends_emit BeginLogout_emits)

lemma run_logouts:
  "AdminClosed \<notin> snd ` set xs \<Longrightarrow> logouts (admin_frames xs s) + sent s \<le> sent (admin_run xs s)"
proof (induction xs arbitrary: s)
  case (Cons x xs)
  obtain env y where x: "x = (env, y)" by (cases x)
  obtain r t where run: "admin_step env y s = (r, t)" by (cases "admin_step env y s")
  have y: "y \<noteq> AdminClosed" using Cons.prems by (auto simp: x)
  have "logouts (step_frames r) + sent s \<le> sent t"
  proof (cases r)
    case (Returns e)
    then show ?thesis using step_emits [OF y, of env] run by (auto simp: emits_def step_frames_def)
  qed (use keepsD [OF latch_step [OF y] run] in \<open>auto simp: step_frames_def logout_latched_def sent_def\<close>)
  then show ?case using Cons.IH [of t] Cons.prems by (auto simp: x run)
qed simp

section \<open>Activation\<close>

definition no_logons :: "'st Env \<Rightarrow> bool" where
  "no_logons env \<longleftrightarrow>
     (\<forall>frame verify decoded. en_DecodeFixMessageView env frame verify = Inr decoded \<longrightarrow>
        view_msg_type (dm_view decoded) \<noteq> ''A'')"

definition stays_inactive :: "'st AdminProtocol \<Rightarrow> 'st AdminProtocol \<Rightarrow> bool" where
  "stays_inactive s s' \<longleftrightarrow> (active_or_resuming (ap_session s') \<longrightarrow> active_or_resuming (ap_session s))"

lemma sending_op_logon: "framing_op x \<Longrightarrow> x \<noteq> OpOnLogonAccepted" "sending_op x \<Longrightarrow> x \<noteq> OpOnLogonAccepted"
  by auto

interpretation inactive: inbound_relation stays_inactive "\<lambda>x. x \<noteq> OpOnLogonAccepted"
  by unfold_locales
    (auto simp: stays_inactive_def simp del: core_step.simps dest!: core_step_active dest: sending_op_logon)

lemma no_logons_dispatchable: "no_logons env \<Longrightarrow> all_dispatchable (\<lambda>x. x \<noteq> OpOnLogonAccepted) env"
  by (auto simp: no_logons_def all_dispatchable_def dispatchable_def)

lemma inactive_step:
  assumes "no_logons env"
  shows "keeps stays_inactive (admin_step env x)"
proof -
  have "keeps stays_inactive (Admin_OnTransportClosed env)"
    unfolding Admin_OnTransportClosed_def Let_def
    by (intro inactive.keeps_rules inactive.keeps_calls inactive.keeps_restores; simp add: keeps_def stays_inactive_def)
  then show ?thesis
    by (cases x)
      (auto simp: frame_event_def intro!: inactive.keeps_rules inactive.keeps_restores
        inactive.keeps_inbound no_logons_dispatchable assms inactive.keeps_timer inactive.keeps_sends
        inactive.keeps_Admin_BeginLogout)
qed

lemma inactive_run:
  "\<forall>(env, x) \<in> set xs. no_logons env \<Longrightarrow> stays_inactive s (admin_run xs s)"
proof (induction xs arbitrary: s)
  case (Cons x xs)
  obtain env y where x: "x = (env, y)" by (cases x)
  have "stays_inactive s (snd (admin_step env y s))"
    using inactive_step [of env y] Cons.prems by (simp add: x keeps_def)
  moreover have "stays_inactive (snd (admin_step env y s)) (admin_run xs (snd (admin_step env y s)))"
    using Cons.prems by (intro Cons.IH) auto
  ultimately show ?case unfolding x admin_run.simps by (rule inactive.trans)
qed (simp add: stays_inactive_def)

section \<open>Properties of the runs\<close>

text \<open>C33: on one connection, whatever the order of inbound messages, sends, timers and logout requests and
  however they fail, the protocol hands at most one Logout to the transport, and none once the
  latch is set.\<close>

theorem one_logout_per_connection:
  assumes "AdminClosed \<notin> snd ` set xs"
  shows "logouts (admin_frames xs s) \<le> (if ap_logout_sent s then 0 else 1)"
  using run_logouts [OF assms, of s] by (auto simp: sent_def split: if_splits)

definition logout_run :: "(MemorySessionStore Env \<times> AdminOp) list" where
  "logout_run = [(sample_env, AdminConnected 1), (sample_env, AdminInbound [53, 1] 2),
     (sample_env, AdminLogout ''bye'' 3), (sample_env, AdminTimer 4)]"

theorem one_logout_per_connection_witness:
  "AdminClosed \<notin> snd ` set logout_run \<and> ap_logout_sent (sample_admin True) = False \<and>
   logouts (admin_frames logout_run (sample_admin True)) \<le> 1 \<and>
   logouts (admin_frames logout_run (sample_admin True)) = 1"
proof -
  have 1: "AdminClosed \<notin> snd ` set logout_run" by (simp add: logout_run_def)
  have 2: "ap_logout_sent (sample_admin True) = False" by code_simp
  have "logouts (admin_frames logout_run (sample_admin True)) = 1" by code_simp
  then show ?thesis using one_logout_per_connection [OF 1, of "sample_admin True"] 1 2 by simp
qed


text \<open>C35: as long as the counterparty sends no Logon, no sequence of operations makes the session active or lets it
  resume to active.\<close>

theorem no_activation_without_logon:
  assumes "\<forall>(env, x) \<in> set xs. no_logons env" and "\<not> active_or_resuming (ap_session s)"
  shows "\<not> active_or_resuming (ap_session (admin_run xs s))"
  using inactive_run [OF assms(1), of s] assms(2) by (simp add: stays_inactive_def)

lemma logonless_env_no_logons: "no_logons logonless_env"
  unfolding no_logons_def
proof (intro allI impI)
  fix frame verify decoded
  assume "en_DecodeFixMessageView logonless_env frame verify = Inr decoded"
  then obtain t q where "t \<noteq> 65" "decoded = sample_decoded t q"
    by (cases "(frame, verify)" rule: sample_decode.cases)
      (auto simp: logonless_env_def memory_env_def split: if_splits)
  moreover have "string_of [t] \<noteq> ''A''" if "t \<noteq> 65"
  proof
    assume "string_of [t] = ''A''"
    then have "bytes_of (string_of [t]) = bytes_of ''A''" by (rule arg_cong)
    then show False using that unfolding bytes_of_string_of by (simp add: bytes_of_def)
  qed
  ultimately show "view_msg_type (dm_view decoded) \<noteq> ''A''"
    by (auto simp: sample_decoded_def sample_message_def ParsedMessage_view_def)
qed

theorem no_activation_without_logon_witness:
  "\<not> active_or_resuming (ap_session (admin_run
     [(logonless_env, AdminConnected 1), (logonless_env, AdminInbound [68, 1] 2)] (sample_admin False)))"
proof (rule no_activation_without_logon)
  show "\<not> active_or_resuming (ap_session (sample_admin False))" by code_simp
qed (simp add: logonless_env_no_logons)

end
