(* ===== verification/Admin_Delivery.thy ===== *)
theory Admin_Delivery
  imports Admin_Steps
begin

text \<open>
  What becomes of an inbound application message: in which order messages reach the application, what
  happens to the ones that arrive ahead of a gap, and how long the references handed out stay valid.
\<close>

section \<open>The loop over the deferred frames ends\<close>

definition same_deferred :: "'st AdminProtocol \<Rightarrow> 'st AdminProtocol \<Rightarrow> bool" where
  "same_deferred s s' \<longleftrightarrow> ap_deferred_gap_frames s' = ap_deferred_gap_frames s"

interpretation queue: protocol_relation same_deferred "\<lambda>_. True"
  by unfold_locales (auto simp: same_deferred_def)

lemma queue_dispatchable: "dispatchable (\<lambda>_. True) decoded"
  by (simp add: dispatchable_def)

lemmas queue_any = queue.keeps_processing [OF queue_dispatchable] queue.keeps_restores [OF TrueI]

definition same_pending :: "'st AdminProtocol \<Rightarrow> 'st AdminProtocol \<Rightarrow> bool" where
  "same_pending s s' \<longleftrightarrow> sc_pending_resend (ap_session s') = sc_pending_resend (ap_session s)"

lemma framing_pending: "framing_op x \<Longrightarrow> sc_pending_resend (snd (core_step x c)) = sc_pending_resend c"
  by (cases x) (auto simp: core_effects)

interpretation pending: framing_relation same_pending
  by unfold_locales (auto simp: same_pending_def framing_pending simp del: core_step.simps)

text \<open>A message leaves the queue of deferred frames alone, or adds itself to it while a resend is pending.\<close>

definition defers :: "'st AdminProtocol \<Rightarrow> 'st AdminProtocol \<Rightarrow> bool" where
  "defers s s' \<longleftrightarrow> same_deferred s s' \<or>
     (\<exists>f. ap_deferred_gap_frames s' = ap_deferred_gap_frames s @ [f]) \<and> sc_pending_resend (ap_session s') \<noteq> None"

lemma defers_queue: "keeps same_deferred m \<Longrightarrow> keeps defers m"
  by (auto simp: keeps_def defers_def)

lemma defers_after: "keeps same_deferred m \<Longrightarrow> (\<And>x. keeps defers (f x)) \<Longrightarrow> keeps defers (bind m f)"
  unfolding keeps_def bind_def
  by (auto simp: defers_def same_deferred_def split: prod.split outcome.split) (metis snd_conv)+

lemma gap_defers: "keeps defers (inbound_gap env decoded snap phase ts st)"
  unfolding keeps_def
proof
  fix s :: "'a AdminProtocol"
  have request: "defers s (snd (and_do (session_op (RecordInboundActivity ts)) (
        bind (BuildResendRequestFrame env b e ts) (\<lambda>resend.
        and_do (update (\<lambda>s. s\<lparr> ap_deferred_gap_frames := ap_deferred_gap_frames s @ [dm_raw decoded] \<rparr>))
          (ret (push_frame resend ProtocolEvent_new)))) s))"
    (is "defers s (snd (?m s))") if "sc_pending_resend (ap_session s) \<noteq> None" for b e
  proof -
    obtain r t where run: "?m s = (r, t)" by (cases "?m s")
    then show ?thesis
    proof (rule bind_cases)
      fix x s1 assume 1: "session_op (RecordInboundActivity ts) s = (Returns x, s1)"
        and 2: "bind (BuildResendRequestFrame env b e ts) (\<lambda>resend.
          and_do (update (\<lambda>s. s\<lparr> ap_deferred_gap_frames := ap_deferred_gap_frames s @ [dm_raw decoded] \<rparr>))
            (ret (push_frame resend ProtocolEvent_new))) s1 = (r, t)"
      from 2 keepsD [OF queue.keeps_activity(1) 1] keepsD [OF pending.keeps_activity(1) 1] that
      show ?thesis
        by (elim bind_cases)
          (auto simp: run defers_def same_deferred_def same_pending_def dest: keepsD [OF queue.keeps_frames(4)]
            keepsD [OF pending.keeps_frames(4)])
    qed (auto simp: run defers_def dest: keepsD [OF queue.keeps_activity(1)])
  qed
  have logout: "keeps defers (and_do (session_op (RecordInboundActivity ts)) (BuildPhaseViolationLogout env v snap mt ts))" for v mt
    by (intro defers_queue queue.keeps_rules queue.keeps_calls queue.keeps_rejects)
  show "defers s (snd (inbound_gap env decoded snap phase ts st s))"
    using request logout
    by (auto simp: inbound_gap_def Let_def defers_def same_deferred_def keeps_def split: option.split)
qed

lemma observe_defers: "keeps defers (observe_inbound env decoded snap phase ts)"
proof -
  have upd: "keeps same_deferred (update (\<lambda>s. s\<lparr> ap_session := c \<rparr>))" for c
    by (simp add: keeps_def same_deferred_def)
  show ?thesis
    unfolding observe_inbound_def
    by (intro keeps_inspect keeps_case defers_after upd queue.keeps_ConsumeResend gap_defers defers_queue
        queue.keeps_commit queue.keeps_rejects queue.keeps_validate_admin queue.keeps_dispatch queue_dispatchable)
qed

lemma accept_defers: "keeps defers (OnInbound_decoded env decoded ts)"
proof -
  have 1: "keeps defers (sequence_inbound env decoded snap ts)" for snap
    unfolding sequence_inbound_def Let_def
    by (intro keeps_inspect keeps_case observe_defers)
      (intro defers_queue queue.keeps_rules queue.keeps_calls queue_any)+
  have 2: "keeps defers (accept_inbound env decoded snap ts)" for snap
    unfolding accept_inbound_def Let_def
    by (rule keeps_inspect)
      (intro defers_after keeps_case queue.keeps_basic queue_any keeps_inspect 1)
  show ?thesis
    unfolding OnInbound_decoded_def Let_def
    by (intro defers_after queue.keeps_calls keeps_inspect keeps_case 2)
      (intro defers_queue queue.keeps_rules queue_any queue.keeps_rejects)+
qed

lemma drain_stops: "sc_pending_resend (ap_session s) \<noteq> None \<Longrightarrow> drain_loop env ts i event s = Some ((event, i, Returns ()), s)"
  by (subst drain_loop.simps) auto

lemma drain_ends: "\<exists>a b c t'. drain_loop env ts i event s = Some ((a, b, c), t')"
proof (induction "length (ap_deferred_gap_frames s) - i" arbitrary: i event s rule: less_induct)
  case less
  have rec: "\<exists>a b c t'. drain_loop env ts (Suc i) event' t = Some ((a, b, c), t')"
    if "i < length (ap_deferred_gap_frames s)" "length (ap_deferred_gap_frames t) = length (ap_deferred_gap_frames s)" for event' t
    by (rule less) (use that in auto)
  have inner: "\<exists>a b c t'. drain_loop env ts (Suc i) event' t = Some ((a, b, c), t')"
    if "i < length (ap_deferred_gap_frames s)" "OnInbound_decoded env decoded ts (taken i s) = (r, t)" for event' decoded r t
  proof (cases "sc_pending_resend (ap_session t) = None")
    case True
    then show ?thesis
      using that keepsD [OF accept_defers that(2)] by (intro rec) (auto simp: defers_def same_deferred_def)
  qed (simp add: drain_stops)
  have skip: "i < length (ap_deferred_gap_frames s) \<Longrightarrow> \<exists>a b c t'. drain_loop env ts (Suc i) event (taken i s) = Some ((a, b, c), t')"
    by (rule rec) auto
  show ?case
    by (subst drain_loop.simps) (auto simp: Let_def split: sum.split prod.split outcome.split intro: skip inner)
qed

section \<open>Lifetimes of the references\<close>

fun released :: "MessageRef \<Rightarrow> bool" where
  "released (BorrowedRef owner p) = (owner = Released)"
| "released (OwnedRef p) = False"

text \<open>An event that owns the one message it refers to, or has none.\<close>

lemma emits_eventD: "emits_event m \<Longrightarrow> m s = (Returns e, s') \<Longrightarrow>
    ev_application_messages e = [] \<and> ev_owned_application_message e = None"
  by (auto simp: emits_def)

definition self_contained :: "ProtocolEvent \<Rightarrow> bool" where
  "self_contained e \<longleftrightarrow> plain e \<or>
     (\<exists>p. ev_application_messages e = [BorrowedRef EventStorage p] \<and> ev_owned_application_message e = Some p)"

lemma ParsedMessage_view_valid [simp]: "view_valid (ParsedMessage_view p)"
  by (simp add: ParsedMessage_view_def)

lemma settle_delivers:
  assumes "delivers decoded e"
  shows "settle_event p raw e =
    (if ev_application_messages e = [] then e
     else e\<lparr> ev_owned_application_message := Some (p\<lparr> pm_raw := raw \<rparr>),
             ev_application_messages := [BorrowedRef EventStorage (p\<lparr> pm_raw := raw \<rparr>)] \<rparr>)"
  using assms
  by (auto simp: delivers_def settle_event_def AdoptParsedApplicationMessage_def MaterializeApplicationMessages_def
      Borrow_def Let_def)

lemma delivered:
  assumes "OnInbound_decoded env decoded ts s = (Returns e, s')"
  shows "delivers decoded e"
  using accept_emits(3) [of decoded env ts] assms by (auto simp: emits_def)

text \<open>What the loop adds to an event: references to messages that are gone.\<close>

lemma drain_messages:
  assumes "drain_loop env ts i event s = Some y"
  shows "ev_owned_application_message (fst (fst y)) = ev_owned_application_message event \<and>
    (\<exists>ps. ev_application_messages (fst (fst y)) = ev_application_messages event @ map (BorrowedRef Released) ps)"
  using assms
proof (rule drain_induct)
  have merge: "ev_owned_application_message (merge_event event (settle_event p raw e)) = ev_owned_application_message event \<and>
      (\<exists>ps. ev_application_messages (merge_event event (settle_event p raw e)) =
         ev_application_messages event @ map (BorrowedRef Released) ps)"
    if "delivers decoded e" for event p raw e decoded
  proof (cases "ev_application_messages e = []")
    case False
    then show ?thesis
      by (intro conjI exI [of _ "[p\<lparr> pm_raw := raw \<rparr>]"]) (simp_all add: settle_delivers [OF that] merge_event_def)
  qed (simp add: settle_delivers [OF that] merge_event_def)
  fix i event s decoded inner t y
  assume d: "drained_by env ts i s decoded (Returns inner) t"
  then have m: "delivers decoded inner" by (auto simp: drained_by_def intro: delivered)
  let ?e = "merge_event event (settle_event (dm_message decoded) (ap_deferred_gap_frames s ! i) inner)"
  show "ev_owned_application_message (fst (fst ((?e\<lparr> ev_disconnect := True \<rparr>, Suc i, Returns ()), t))) =
      ev_owned_application_message event \<and>
    (\<exists>ps. ev_application_messages (fst (fst ((?e\<lparr> ev_disconnect := True \<rparr>, Suc i, Returns ()), t))) =
      ev_application_messages event @ map (BorrowedRef Released) ps)"
    using merge [OF m] by simp
  assume "ev_owned_application_message (fst (fst y)) = ev_owned_application_message ?e \<and>
    (\<exists>ps. ev_application_messages (fst (fst y)) = ev_application_messages ?e @ map (BorrowedRef Released) ps)"
  then show "ev_owned_application_message (fst (fst y)) = ev_owned_application_message event \<and>
    (\<exists>ps. ev_application_messages (fst (fst y)) = ev_application_messages event @ map (BorrowedRef Released) ps)"
    using merge [OF m] by (metis append.assoc map_append)
qed (auto intro: exI [of _ "[]"])

text \<open>Moving the event on keeps the messages; the references survive when nothing was added.\<close>

lemma move_drained:
  assumes "self_contained e" and "ev_owned_application_message e' = ev_owned_application_message e"
    and "ev_application_messages e' = ev_application_messages e @ map (BorrowedRef Released) ps"
  shows "map ref_message (ev_application_messages (move_event e')) = map ref_message (ev_application_messages e')"
    and "if ps = [] then self_contained (move_event e') else list_all released (ev_application_messages (move_event e'))"
  using assms
  by (cases ps; auto simp: self_contained_def move_event_def RebindOwnedApplicationMessage_def list_all_iff)+

lemma settle_self_contained: "delivers decoded e \<Longrightarrow> self_contained (settle_event p raw e)"
  by (auto simp: settle_delivers self_contained_def) (auto simp: delivers_def)

lemma drain_result:
  assumes "DrainDeferredGapFrames env ts e s = ((e', r), s')"
  obtains i t where "drain_loop env ts 0 e s = Some ((e', i, r), t)"
    and "s' = t\<lparr>ap_deferred_gap_frames := drop i (ap_deferred_gap_frames t)\<rparr>"
  using assms drain_ends [of env ts 0 e s] by (auto simp: DrainDeferredGapFrames_def)

lemma moved_messages:
  assumes "OnInbound_decoded env decoded ts s = (Returns e, s1)"
    and "DrainDeferredGapFrames env ts (settle_event (dm_message decoded) raw e) s1 = ((e', r), s')"
  shows "map ref_message (ev_application_messages (move_event e')) = map ref_message (ev_application_messages e')"
    and "self_contained (move_event e') \<or>
      ev_application_messages (move_event e') \<noteq> [] \<and> list_all released (ev_application_messages (move_event e'))"
proof -
  let ?e = "settle_event (dm_message decoded) raw e"
  obtain ps where own: "ev_owned_application_message e' = ev_owned_application_message ?e"
    and ps: "ev_application_messages e' = ev_application_messages ?e @ map (BorrowedRef Released) ps"
    by (rule drain_result [OF assms(2)]) (auto dest!: drain_messages)
  note * = move_drained [OF settle_self_contained [OF delivered [OF assms(1)]] own ps]
  show 1: "map ref_message (ev_application_messages (move_event e')) = map ref_message (ev_application_messages e')"
    by (rule *)
  have "ps \<noteq> [] \<Longrightarrow> ev_application_messages (move_event e') \<noteq> []"
    using 1 ps by auto
  then show "self_contained (move_event e') \<or>
      ev_application_messages (move_event e') \<noteq> [] \<and> list_all released (ev_application_messages (move_event e'))"
    using *(2) by (auto split: if_splits)
qed

lemma inbound_returns:
  assumes "OnInbound env frame ts s = (Returns e, s') \<or> OnInbound_vector env frame ts s = (Returns e, s')"
  obtains (failure) st where "HandleInboundDecodeFailure env st ts s = (Returns e, s')"
  | (accepted) decoded raw event s1 e1 r where
      "en_DecodeFixMessageView env frame (vp_verify_checksum (ac_validation_policy (ap_config s))) = Inr decoded"
      "raw = dm_raw decoded \<or> raw = frame"
      "OnInbound_decoded env decoded ts s = (Returns event, s1)"
      "DrainDeferredGapFrames env ts (settle_event (dm_message decoded) raw event) s1 = ((e1, r), s')"
      "e = move_event e1"
  using assms
  by (fastforce simp: OnInbound_def OnInbound_vector_def elim!: bind_Returns split: sum.splits prod.splits outcome.splits)

text \<open>C37: The application messages in the event of an inbound frame are either at most one message, bound to the
  bytes the event owns, or, once messages queued behind a gap were delivered with it, references into storage that is
  gone when the caller reads them: the queue's own events are destroyed, and the event itself was moved.\<close>

theorem deferred_messages_dangle:
  assumes "OnInbound env frame ts s = (Returns e, s') \<or> OnInbound_vector env frame ts s = (Returns e, s')"
  shows "self_contained e \<or> ev_application_messages e \<noteq> [] \<and> list_all released (ev_application_messages e)"
  using assms
proof (cases rule: inbound_returns)
  case failure
  then show ?thesis by (auto simp: self_contained_def dest!: emits_eventD [OF processing_emits(2)])
next
  case accepted
  then show ?thesis using moved_messages(2) by blast
qed

text \<open>Message 4 arrives ahead of 2 and 3 and is delivered with message 3.\<close>

definition gap_run :: "(MemorySessionStore Env \<times> AdminOp) list" where
  "gap_run = map (Pair sample_env)
     [AdminConnected 1, AdminInbound [65, 1] 2, AdminInbound [68, 4] 3, AdminInbound [68, 2] 4]"

theorem deferred_messages_dangle_witness:
  "case OnInbound sample_env [68, 3] 5 (admin_run gap_run (sample_admin True)) of
     (Returns e, s') \<Rightarrow> length (ev_application_messages e) = 2 \<and> list_all released (ev_application_messages e)
   | _ \<Rightarrow> False"
proof -
  have "case OnInbound sample_env [68, 3] 5 (admin_run gap_run (sample_admin True)) of
     (Returns e, s') \<Rightarrow> length (ev_application_messages e) = 2 | _ \<Rightarrow> False"
    by code_simp
  then obtain e s' where run: "OnInbound sample_env [68, 3] 5 (admin_run gap_run (sample_admin True)) = (Returns e, s')"
    and len: "length (ev_application_messages e) = 2"
    by (auto split: prod.splits outcome.splits)
  then show ?thesis using deferred_messages_dangle [OF disjI1, OF run] by (auto simp: self_contained_def)
qed


section \<open>Messages are delivered under the expected number\<close>

definition same_counter :: "'st AdminProtocol \<Rightarrow> 'st AdminProtocol \<Rightarrow> bool" where
  "same_counter s s' \<longleftrightarrow> sc_next_in_seq (ap_session s') = sc_next_in_seq (ap_session s)"

lemma sending_counter: "sending_op x \<Longrightarrow> sc_next_in_seq (snd (core_step x c)) = sc_next_in_seq c"
  "framing_op x \<Longrightarrow> sc_next_in_seq (snd (core_step x c)) = sc_next_in_seq c"
  by (cases x; simp add: core_effects)+

interpretation counter: sending_relation same_counter
  by unfold_locales (auto simp: same_counter_def sending_counter simp del: core_step.simps)

lemma Observe_ok:
  assumes "ObserveInboundSeq q c = (st, c')" "status_ok st"
  shows "q = sc_next_in_seq c \<and> sc_next_in_seq c' = sc_next_in_seq c + 1"
  using assms
  by (auto simp: ObserveInboundSeq_def leave_resend_if_complete_def split: if_splits option.splits bool.splits prod.splits)

lemma dispatch_delivery:
  assumes "dispatch_inbound env decoded ts s = (Returns e, s')" and "ev_application_messages e \<noteq> []"
  shows "view_msg_type (dm_view decoded) \<noteq> ''A'' \<and> same_counter s s'"
proof -
  have "view_msg_type (dm_view decoded) \<notin> {''A'', ''4''}"
    using assms
    by (auto simp: dispatch_inbound_def dest: emits_eventD [OF ProcessInboundLogon_emits] emits_eventD [OF processing_emits(6)])
  then have "keeps same_counter (dispatch_inbound env decoded ts)"
    unfolding dispatch_inbound_def Let_def
    by (intro counter.keeps_rules counter.keeps_calls counter.keeps_replies counter.keeps_heartbeat
        counter.keeps_application) auto
  then show ?thesis using assms(1) \<open>_ \<notin> _\<close> by (auto dest: keepsD)
qed

lemma validate_delivery:
  assumes "validate_admin env decoded ts m s = (Returns e, s')" and "ev_application_messages e \<noteq> []"
  shows "m s = (Returns e, s')"
  using assms by (auto simp: validate_admin_def split: option.splits dest: emits_eventD [OF rejects_emit(1)])

lemma observe_delivery:
  assumes "observe_inbound env decoded snap phase ts s = (Returns e, s')" and "ev_application_messages e \<noteq> []"
  shows "view_msg_type (dm_view decoded) \<noteq> ''A'' \<and>
    h_msg_seq_num (dm_header decoded) = sc_next_in_seq (ap_session s) \<and>
    sc_next_in_seq (ap_session s') = sc_next_in_seq (ap_session s) + 1"
proof -
  obtain status core where o: "ObserveInboundSeq (h_msg_seq_num (dm_header decoded)) (ap_session s) = (status, core)"
    by (cases "ObserveInboundSeq (h_msg_seq_num (dm_header decoded)) (ap_session s)")
  let ?s = "s\<lparr> ap_session := core \<rparr>"
  from assms obtain s1 s2 where c: "ConsumeResend ?s = (Returns (), s1)" and st: "status_ok status"
    and p: "CommitInboundPersistence env decoded ts s1 = (Returns (), s2)"
    and d: "dispatch_inbound env decoded ts s2 = (Returns e, s')"
    by (auto simp: observe_inbound_def o elim!: bind_Returns split: if_splits option.splits
        dest: emits_eventD [OF gap_emits] emits_eventD [OF rejects_emit(3)] validate_delivery)
  have "same_counter ?s s1" "same_counter s1 s2"
    using keepsD [OF counter.keeps_ConsumeResend c] keepsD [OF counter.keeps_commit p] .
  with dispatch_delivery [OF d assms(2)] Observe_ok [OF o st] show ?thesis by (auto simp: same_counter_def)
qed

lemma sequence_delivery:
  assumes "sequence_inbound env decoded snap ts s = (Returns e, s')" and "ev_application_messages e \<noteq> []"
  obtains phase where "observe_inbound env decoded snap phase ts s = (Returns e, s')"
  using assms
  by (auto simp: sequence_inbound_def Let_def event_simps elim!: bind_Returns split: if_splits option.splits
      dest: emits_eventD [OF sequence_reset_emits] emits_eventD [OF processing_emits(5)])

lemma accept_delivery:
  assumes "OnInbound_decoded env decoded ts s = (Returns e, s')" and "ev_application_messages e \<noteq> []"
  shows "h_msg_seq_num (dm_header decoded) = sc_next_in_seq (ap_session s) \<and>
    sc_next_in_seq (ap_session s') = sc_next_in_seq (ap_session s) + 1 \<and> ValidateCompIds (ap_config s) decoded = None"
proof -
  have init: "t = s" if "EnsureInitialized s = (Returns (), t)" for t
    using that by (auto simp: EnsureInitialized_def check_def split: option.splits if_splits)
  from assms have a: "accept_inbound env decoded (Snapshot (ap_session s)) ts s = (Returns e, s')"
    and v: "ValidateCompIds (ap_config s) decoded = None"
    by (auto simp: OnInbound_decoded_def Let_def elim!: bind_Returns dest!: init split: if_splits option.splits
        dest: emits_eventD [OF processing_emits(3)] emits_eventD [OF RejectInbound_emits] emits_eventD [OF rejects_emit(2)])
  have n: "sequence_inbound env decoded snap ts t = (Returns e, s') \<Longrightarrow> view_msg_type (dm_view decoded) \<noteq> ''A''" for snap t
    using assms(2) by (blast elim: sequence_delivery dest: observe_delivery)
  from a have "sequence_inbound env decoded (Snapshot (ap_session s)) ts s = (Returns e, s')"
    by (auto simp: accept_inbound_def Let_def elim!: bind_Returns split: if_splits dest: n)
  with assms(2) v show ?thesis by (blast elim: sequence_delivery dest: observe_delivery)
qed

end
