(* ===== verification/Admin_Order.thy ===== *)
theory Admin_Order
  imports Admin_Delivery
begin

text \<open>
  The order of delivery: the application messages an acceptor or initiator hands out carry increasing
  sequence numbers, each within the range the expected number moved through.
\<close>

section \<open>Messages are delivered in order\<close>

text \<open>Numbers that are increasing, the first at least \<open>q\<close> and all below \<open>q'\<close>.\<close>

fun in_order :: "u32 \<Rightarrow> u32 list \<Rightarrow> u32 \<Rightarrow> bool" where
  "in_order q [] q' = (q \<le> q')"
| "in_order q (n # ns) q' = (q \<le> n \<and> n < u32_max \<and> in_order (n + 1) ns q')"

lemma less_Suc_word: "(n :: u32) < u32_max \<Longrightarrow> n < n + 1"
  using unat_lt_2p32 [of n] by (simp add: word_less_nat_alt unat_word_ariths)

lemma below_max: "(n :: u32) \<noteq> u32_max \<Longrightarrow> n < u32_max"
  by (simp only: word_order.not_eq_extremum)

lemma in_order_mono: "in_order q ns q' \<Longrightarrow> p \<le> q \<Longrightarrow> q' \<le> r \<Longrightarrow> in_order p ns r"
  by (induction q ns q' arbitrary: p rule: in_order.induct) auto

lemma in_order_append: "in_order q ns q' \<Longrightarrow> in_order q' ms r \<Longrightarrow> in_order q (ns @ ms) r"
  by (induction q ns q' rule: in_order.induct) (simp_all add: in_order_mono [of _ ms r])

lemma in_order_bounds: "in_order q ns q' \<Longrightarrow> q \<le> q' \<and> sorted_wrt (<) ns \<and> (\<forall>n \<in> set ns. q \<le> n \<and> n < q')"
proof (induction q ns q' rule: in_order.induct)
  case (2 q n ns q')
  then have n: "q \<le> n" "n < n + 1" and IH: "n + 1 \<le> q'" "sorted_wrt (<) ns" "\<forall>m \<in> set ns. n + 1 \<le> m \<and> m < q'"
    by (simp_all add: less_Suc_word)
  have "n < q'" using n(2) IH(1) by (rule less_le_trans)
  moreover have "\<forall>m \<in> set ns. n < m" using n(2) IH(3) by (meson less_le_trans)
  moreover have "\<forall>m \<in> set ns. q \<le> m" using n IH(3) by (meson order_trans less_imp_le)
  ultimately show ?case using n IH by (simp add: less_imp_le order_trans [of q n q'])
qed simp

text \<open>A decoder that keeps the bytes of the frame it was given, and whose messages are no Logons and stay clear of
  the last number.\<close>

definition ordinary :: "'st Env \<Rightarrow> bool" where
  "ordinary env \<longleftrightarrow> no_logons env \<and>
     (\<forall>frame verify decoded. en_DecodeFixMessageView env frame verify = Inr decoded \<longrightarrow>
        dm_raw decoded = frame \<and> h_msg_seq_num (dm_header decoded) \<noteq> u32_max)"

definition advances :: "'st AdminProtocol \<Rightarrow> 'st AdminProtocol \<Rightarrow> bool" where
  "advances s s' \<longleftrightarrow>
     ap_config s' = ap_config s \<and> sc_next_in_seq (ap_session s) \<le> sc_next_in_seq (ap_session s')"

definition advancing_op :: "CoreOp \<Rightarrow> bool" where
  "advancing_op x \<longleftrightarrow> (\<forall>c. sc_next_in_seq c \<le> sc_next_in_seq (snd (core_step x c)))"

interpretation advance: inbound_relation advances advancing_op
  by unfold_locales (auto simp: advances_def advancing_op_def sending_counter simp del: core_step.simps)

lemma advancing_ops: "advancing_op (OpAdvanceInboundExpectedSeq n)" "q \<noteq> u32_max \<Longrightarrow> advancing_op (OpObserveInboundSeq q)"
proof -
  have [simp]: "sc_next_in_seq (leave_resend_if_complete c) = sc_next_in_seq c" for c
    by (auto simp: leave_resend_if_complete_def split: option.split)
  show "advancing_op (OpAdvanceInboundExpectedSeq n)"
    by (auto simp: advancing_op_def AdvanceInboundExpectedSeq_def)
  show "advancing_op (OpObserveInboundSeq q)" if "q \<noteq> u32_max"
  proof -
    have "q \<le> q + 1" using that by (intro less_imp_le less_Suc_word below_max)
    then show ?thesis
      by (auto simp: advancing_op_def ObserveInboundSeq_def Let_def split: option.split bool.split)
  qed
qed

lemma ordinary_dispatchable: "ordinary env \<Longrightarrow> all_dispatchable advancing_op env"
  by (auto simp: ordinary_def no_logons_def all_dispatchable_def dispatchable_def advancing_ops)

text \<open>The sequence number of a message that was handed out: the one the decoder reads in its bytes.\<close>

type_synonym decoder = "bytes \<Rightarrow> bool \<Rightarrow> DecodedMessageView Result"

definition message_seq :: "decoder \<Rightarrow> bool \<Rightarrow> MessageRef \<Rightarrow> u32 option" where
  "message_seq reads verify m =
     (case reads (pm_raw (ref_message m)) verify of Inl _ \<Rightarrow> None | Inr decoded \<Rightarrow> Some (h_msg_seq_num (dm_header decoded)))"

definition delivery :: "decoder \<Rightarrow> bool \<Rightarrow> u32 \<Rightarrow> MessageRef list \<Rightarrow> u32 \<Rightarrow> bool" where
  "delivery reads verify q ms q' \<longleftrightarrow> (\<exists>ns. map (message_seq reads verify) ms = map Some ns \<and> in_order q ns q')"

lemma delivery_none: "q \<le> q' \<Longrightarrow> delivery reads v q [] q'"
  by (simp add: delivery_def)

lemma delivery_append: "delivery reads v q ms q' \<Longrightarrow> delivery reads v q' ns r \<Longrightarrow> delivery reads v q (ms @ ns) r"
  unfolding delivery_def by (metis in_order_append map_append)

lemma delivery_cong: "map ref_message ms = map ref_message ns \<Longrightarrow> delivery reads v q ms q' = delivery reads v q ns q'"
proof -
  assume "map ref_message ms = map ref_message ns"
  then have "map (message_seq reads v) ms = map (message_seq reads v) ns"
    by (auto simp: message_seq_def list_eq_iff_nth_eq)
  then show ?thesis by (simp add: delivery_def)
qed

abbreviation expected :: "'st AdminProtocol \<Rightarrow> u32" where
  "expected s \<equiv> sc_next_in_seq (ap_session s)"

abbreviation verifies :: "'st AdminProtocol \<Rightarrow> bool" where
  "verifies s \<equiv> vp_verify_checksum (ac_validation_policy (ap_config s))"

lemma settled_delivery:
  assumes "OnInbound_decoded env decoded ts s = (Returns e, s')"
    and "dispatchable advancing_op decoded" and "h_msg_seq_num (dm_header decoded) \<noteq> u32_max"
    and "reads raw v = Inr decoded"
  shows "delivery reads v (expected s) (ev_application_messages (settle_event (dm_message decoded) raw e)) (expected s')"
proof (cases "ev_application_messages e = []")
  case True
  then show ?thesis
    using keepsD [OF advance.keeps_accept(3) [OF assms(2)] assms(1)] delivered [OF assms(1)]
    by (auto simp: settle_delivers advances_def intro: delivery_none)
next
  case False
  then show ?thesis
    using accept_delivery [OF assms(1) False] below_max [OF assms(3)] delivered [OF assms(1)] assms(4)
    by (auto simp: settle_delivers delivery_def message_seq_def intro!: exI [of _ "[h_msg_seq_num (dm_header decoded)]"])
qed

lemma map_release_delivery: "delivery reads v q (map release_ref ms) q' = delivery reads v q ms q'"
proof (rule delivery_cong)
  have "ref_message (release_ref m) = ref_message m" for m by (cases m rule: release_ref.cases) simp_all
  then show "map ref_message (map release_ref ms) = map ref_message ms" by simp
qed

text \<open>The event gains messages while the expected number moves on.\<close>

definition adds :: "decoder \<Rightarrow> ProtocolEvent \<Rightarrow> 'st AdminProtocol \<Rightarrow> ProtocolEvent \<Rightarrow> 'st AdminProtocol \<Rightarrow> bool" where
  "adds reads e s e' s' \<longleftrightarrow> ap_config s' = ap_config s \<and>
     (\<exists>ms. ev_application_messages e' = ev_application_messages e @ ms \<and>
       delivery reads (verifies s) (expected s) ms (expected s'))"

lemma adds_none: "advances s s' \<Longrightarrow> adds reads e s e s'"
  by (auto simp: adds_def advances_def intro: delivery_none)

lemma adds_trans: "adds reads e s e' s' \<Longrightarrow> adds reads e' s' e'' s'' \<Longrightarrow> adds reads e s e'' s''"
  unfolding adds_def by (metis append.assoc delivery_append)

lemma adds_taken:
  "adds reads e (taken i s) e' s' = adds reads e s e' s'" "adds reads e s (e'\<lparr> ev_disconnect := b \<rparr>) s' = adds reads e s e' s'"
  by (simp_all add: adds_def)

lemma drain_delivery:
  assumes "drain_loop env ts i event s = Some y" and env: "ordinary env"
  shows "adds (en_DecodeFixMessageView env) event s (fst (fst y)) (snd y)"
proof -
  have disp: "dispatchable advancing_op decoded" "h_msg_seq_num (dm_header decoded) \<noteq> u32_max"
    if "drained_by env ts i s decoded r t" for i s decoded r t
    using that env ordinary_dispatchable [OF env] by (auto simp: drained_by_def all_dispatchable_def ordinary_def)
  have adv: "advances s t" if "drained_by env ts i s decoded r t" for i s decoded r t
    using that keepsD [OF advance.keeps_accept(3) [OF disp(1) [OF that]], of env ts "taken i s" r t]
    by (simp add: drained_by_def advances_def)
  have step: "adds (en_DecodeFixMessageView env) event s
      (merge_event event (settle_event (dm_message decoded) (ap_deferred_gap_frames s ! i) inner)) t"
    if "drained_by env ts i s decoded (Returns inner) t" for event i s decoded inner t
    using that adv [OF that] settled_delivery [OF _ disp [OF that], of env ts "taken i s" inner t
        "en_DecodeFixMessageView env" "ap_deferred_gap_frames s ! i" "verifies s"]
    by (simp add: adds_def advances_def merge_event_def map_release_delivery drained_by_def)
  from assms(1) show ?thesis
  proof (rule drain_induct, goal_cases)
    case 1 show ?case by (simp add: adds_none advance.refl)
  next
    case 2 then show ?case by (simp add: adds_taken)
  next
    case 3 then show ?case by (simp add: adds_none adv)
  next
    case 4 then show ?case by (simp add: adds_none adv)
  next
    case 5 then show ?case by (simp add: adds_taken step)
  next
    case (6 i event s decoded inner t y)
    from step [OF 6(1)] 6(3) show ?case by (rule adds_trans)
  qed
qed

section \<open>A connection\<close>

lemma inbound_delivery:
  assumes env: "ordinary env"
    and run: "OnInbound env frame ts s = (Returns e, s') \<or> OnInbound_vector env frame ts s = (Returns e, s')"
  shows "delivery (en_DecodeFixMessageView env) (verifies s) (expected s) (ev_application_messages e) (expected s')"
  using run
proof (cases rule: inbound_returns)
  case (failure st)
  then show ?thesis
    using emits_eventD [OF processing_emits(2) failure] keepsD [OF advance.keeps_replies(2) failure]
    by (simp add: advances_def delivery_none)
next
  case (accepted decoded raw event s1 e1 r)
  have d: "dispatchable advancing_op decoded" "h_msg_seq_num (dm_header decoded) \<noteq> u32_max" "raw = frame"
    using accepted(1,2) env ordinary_dispatchable [OF env] by (auto simp: all_dispatchable_def ordinary_def)
  have "adds (en_DecodeFixMessageView env) (settle_event (dm_message decoded) raw event) s1 e1 s'"
    by (rule drain_result [OF accepted(4)]) (auto simp: adds_def dest!: drain_delivery [OF _ env])
  moreover have "ap_config s1 = ap_config s"
    using keepsD [OF advance.keeps_accept(3) [OF d(1)] accepted(3)] by (simp add: advances_def)
  ultimately have "delivery (en_DecodeFixMessageView env) (verifies s) (expected s) (ev_application_messages e1) (expected s')"
    using settled_delivery [OF accepted(3) d(1,2), of "en_DecodeFixMessageView env" raw "verifies s"] accepted(1) d(3)
    by (auto simp: adds_def intro: delivery_append)
  then show ?thesis
    unfolding accepted(5) by (simp only: delivery_cong [OF moved_messages(1) [OF accepted(3,4)]])
qed

definition step_messages :: "ProtocolEvent outcome \<Rightarrow> MessageRef list" where
  "step_messages r = (case r of Returns e \<Rightarrow> ev_application_messages e | _ \<Rightarrow> [])"

fun admin_messages :: "('st Env \<times> AdminOp) list \<Rightarrow> 'st AdminProtocol \<Rightarrow> MessageRef list" where
  "admin_messages [] s = []"
| "admin_messages ((env, x) # xs) s =
     step_messages (fst (admin_step env x s)) @ admin_messages xs (snd (admin_step env x s))"

text \<open>The operations between connecting and closing the transport.\<close>

fun on_connection :: "AdminOp \<Rightarrow> bool" where
  "on_connection (AdminConnected t) = False"
| "on_connection AdminClosed = False"
| "on_connection _ = True"

lemma step_delivery:
  assumes env: "ordinary env" and x: "on_connection x" and run: "admin_step env x s = (r, s')"
  shows "ap_config s' = ap_config s"
    and "delivery (en_DecodeFixMessageView env) (verifies s) (expected s) (step_messages r) (expected s')"
proof -
  have "keeps advances (admin_step env x)"
    using x by (cases x)
      (auto simp: frame_event_def intro!: advance.keeps_rules advance.keeps_inbound ordinary_dispatchable env
        advance.keeps_timer advance.keeps_sends advance.keeps_Admin_BeginLogout)
  then have adv: "advances s s'" using run by (rule keepsD)
  then show "ap_config s' = ap_config s" by (simp add: advances_def)
  show "delivery (en_DecodeFixMessageView env) (verifies s) (expected s) (step_messages r) (expected s')"
  proof (cases r)
    case (Returns e)
    have "(\<exists>f t. x = AdminInbound f t \<or> x = AdminInboundVector f t) \<or> ev_application_messages e = []"
      using x run Returns
      by (cases x) (auto simp: frame_event_def push_frame_def ProtocolEvent_new_def elim!: bind_Returns
          dest: emits_eventD [OF timer_emits])
    then show ?thesis
      using run Returns adv
      by (auto simp: step_messages_def advances_def intro: delivery_none inbound_delivery [OF env])
  qed (use adv in \<open>auto simp: step_messages_def advances_def intro: delivery_none\<close>)
qed

lemma run_delivery:
  assumes "\<forall>(env, x) \<in> set xs. ordinary env \<and> en_DecodeFixMessageView env = reads \<and> on_connection x"
  shows "delivery reads (verifies s) (expected s) (admin_messages xs s) (expected (admin_run xs s))"
  using assms
proof (induction xs arbitrary: s)
  case (Cons x xs)
  obtain env y r t where x: "x = (env, y)" "admin_step env y s = (r, t)"
    by (cases x; cases "admin_step (fst x) (snd x) s") simp
  with Cons.prems have "delivery reads (verifies s) (expected s) (step_messages r) (expected t)" "ap_config t = ap_config s"
    using step_delivery [of env y s r t] by auto
  with Cons.prems Cons.IH [of t] x show ?case by (auto intro: delivery_append)
qed (simp add: delivery_none)

text \<open>C36: Between connecting and closing, whatever the counterparty sends other than a Logon, and in whatever order and
  with whatever gaps, duplicates, sequence resets, sends and timers in between, the application messages are handed out
  with strictly increasing sequence numbers, so none twice, and every one in the range the expected number moved
  through.\<close>

theorem delivered_in_order:
  assumes "\<forall>(env, x) \<in> set xs. ordinary env \<and> en_DecodeFixMessageView env = reads \<and> on_connection x"
  shows "\<exists>ns. map (message_seq reads (verifies s)) (admin_messages xs s) = map Some ns \<and> sorted_wrt (<) ns \<and>
    (\<forall>n \<in> set ns. sc_next_in_seq (ap_session s) \<le> n \<and> n < sc_next_in_seq (ap_session (admin_run xs s)))"
  using run_delivery [OF assms] in_order_bounds unfolding delivery_def by blast

lemma ucast_below_max: "(ucast (q :: u8) :: u32) \<noteq> u32_max"
proof -
  have "unat (ucast q :: u32) < 256"
    using unsigned_less [of q, where ?'a = nat] by (simp add: unsigned_ucast_eq take_bit_eq_mod)
  then show ?thesis by auto
qed

lemma logonless_env_ordinary: "ordinary logonless_env"
proof -
  have "dm_raw decoded = frame \<and> h_msg_seq_num (dm_header decoded) \<noteq> u32_max"
    if "sample_decode frame verify = Inr decoded" for frame verify decoded
    using that by (cases "(frame, verify)" rule: sample_decode.cases) 
      (auto simp: sample_decoded_def sample_session_header_def ucast_below_max)
  then show ?thesis
    using logonless_env_no_logons by (auto simp: ordinary_def logonless_env_def memory_env_def split: if_splits)
qed

definition logged_on :: "MemorySessionStore AdminProtocol" where
  "logged_on = admin_run [(sample_env, AdminConnected 1), (sample_env, AdminInbound [65, 1] 2)] (sample_admin True)"

definition early_run :: "(MemorySessionStore Env \<times> AdminOp) list" where
  "early_run = map (Pair logonless_env) [AdminInbound [68, 4] 3, AdminInbound [68, 2] 4, AdminInbound [68, 3] 5]"

theorem delivered_in_order_witness:
  "map (message_seq (en_DecodeFixMessageView logonless_env) (verifies logged_on)) (admin_messages early_run logged_on)
     = map Some [2, 3, 4] \<and>
   (\<exists>ns. map Some ns = map (message_seq (en_DecodeFixMessageView logonless_env) (verifies logged_on))
     (admin_messages early_run logged_on) \<and> sorted_wrt (<) ns)"
proof -
  have "map (message_seq (en_DecodeFixMessageView logonless_env) (verifies logged_on)) (admin_messages early_run logged_on)
     = map Some [2, 3, 4]"
    by code_simp
  moreover have "\<forall>(env, x) \<in> set early_run.
      ordinary env \<and> en_DecodeFixMessageView env = en_DecodeFixMessageView logonless_env \<and> on_connection x"
    by (auto simp: early_run_def logonless_env_ordinary)
  from delivered_in_order [OF this, of logged_on]
  have "\<exists>ns. map Some ns = map (message_seq (en_DecodeFixMessageView logonless_env) (verifies logged_on))
     (admin_messages early_run logged_on) \<and> sorted_wrt (<) ns"
    by metis
  ultimately show ?thesis by blast
qed

definition stranger_run :: "(MemorySessionStore Env \<times> AdminOp) list" where
  "stranger_run = map (Pair logonless_env) [AdminConnected 1, AdminInbound [68, 3] 2, AdminInbound [68, 1] 3]"


end
