(* ===== verification/Spec2Isabelle.thy ===== *)
theory Spec2Isabelle
  imports Session_Core Memory_Store Resend_Recovery Raw_Passthrough Parsed_Message Admin_Order Validation_Policy
begin

text \<open>
  A verification development for NimbleFIX, a FIX protocol engine.
\<close>

end
